theory Spec2Isabelle
  imports Complex_Main "HOL-Library.Sublist"
begin

section \<open>Data model\<close>

text \<open>
  The repository holds two variants of the same Cloud Function: \<^verbatim>\<open>src/index.js\<close> and
  \<^verbatim>\<open>src/unnamed/part_000\<close>.  Both share \<^verbatim>\<open>log\<close>, \<^verbatim>\<open>validateConfig\<close> and the frame of
  \<^verbatim>\<open>getGtmInfo\<close>; they differ in the closing characters of the notification text and in
  the per-container part of the loop.  Definitions that exist once per variant carry the
  suffix \<open>_index\<close> (for \<^verbatim>\<open>src/index.js\<close>) or \<open>_part\<close> (for \<^verbatim>\<open>src/unnamed/part_000\<close>);
  \<open>getGtmInfo v\<close> is the entry point of variant \<open>v\<close>.

  JavaScript objects are modelled as maps from property names to values, a property that
  is absent (\<^verbatim>\<open>undefined\<close>) as \<open>None\<close>.  Values have the types the documents carry:
  identifiers and URLs are strings, \<^verbatim>\<open>lastChecked\<close> is an integer (epoch milliseconds).
  Truthiness is written out where the source tests it: an absent property and the empty
  string are falsy, every object and every array (the empty array too) is truthy.
  Property names are taken not to collide with members of \<^verbatim>\<open>Object.prototype\<close>.
\<close>

datatype exn = TypeError | AuthError | FetchError | SendError | SaveError

text \<open>The state document: account id, then container id, then the container's record.\<close>

record container_record =
  containerVersionId :: "string option"
  lastChecked :: "int option"

type_synonym gtm_state = "string \<rightharpoonup> (string \<rightharpoonup> container_record)"

text \<open>\<^verbatim>\<open>res.data\<close> of the live-version call, with the fields the program reads.\<close>

record version_data =
  data_containerVersionId :: string
  container_publicId :: string
  container_name :: string
  data_name :: "string option"
  tagManagerUrl :: string

text \<open>The one attachment of a Slack message; \<^verbatim>\<open>ts\<close> is \<^verbatim>\<open>now / 1000\<close>, kept exact.\<close>

record attachment =
  fallback :: string
  color :: string
  pretext :: string
  author_name :: string
  title :: string
  title_link :: string
  text_field :: string
  mrkdwn_in :: "string list"
  footer :: string
  ts :: rat

text \<open>
  \<^verbatim>\<open>config.json\<close>.  The validator asks of the two sections \<^verbatim>\<open>gcs\<close> and \<^verbatim>\<open>slackOutput\<close>
  both whether the property is there (\<^verbatim>\<open>hasOwnProperty\<close>) and whether its value is
  truthy, so a section is one of three: not there, there with the value \<^verbatim>\<open>null\<close>, or
  there with an object (for \<^verbatim>\<open>gcs\<close>) or an array (for \<^verbatim>\<open>slackOutput\<close>).  Of the fields
  of \<^verbatim>\<open>gcs\<close> the source only asks whether they are there, of the fields of an entry of
  \<^verbatim>\<open>slackOutput\<close> only whether they are truthy.
\<close>

datatype 'a property = NoProperty | NullValue | Present 'a

record gcs_section =
  bucketName :: "string option"
  fileName :: "string option"

record slack_entry =
  slackWebhookUrl :: "string option"
  gtmContainers :: "string list option"

record config =
  gcs :: "gcs_section property"
  slackOutput :: "slack_entry list property"
  verboseLogging :: bool

record validation =
  error :: bool
  errorMessage :: string

text \<open>
  The object in the bucket: absent, present with content that \<^verbatim>\<open>JSON.parse\<close> rejects, or
  a state document.
\<close>

datatype blob = Absent | Malformed | Doc gtm_state

text \<open>What a run does to the outside, in order.\<close>

datatype event =
    ConsoleLog string
  | ConsoleError string
  | Download string string
  | GetClient
  | Live string
  | Send string "attachment list"
  | Save string string gtm_state

text \<open>
  The world a run acts on: the bucket's objects by bucket and file name, the events so
  far (oldest first), and the number of remote calls made so far.
\<close>

record world =
  store :: "string \<times> string \<Rightarrow> blob"
  trace :: "event list"
  tick :: nat

text \<open>
  What the collaborators answer.  Each answer may depend on the number of remote calls
  made before it, so the remote side and the clock may change while a run goes on.
  \<open>prettyMs\<close> is the library function of that name (\<open>None\<close> as argument is \<^verbatim>\<open>NaN\<close>, as
  result a thrown error); \<open>live\<close> answers \<open>None\<close> when the call throws.
\<close>

record env =
  prettyMs :: "int option \<Rightarrow> string option"
  download_fails :: "nat \<Rightarrow> bool"
  getClient_fails :: "nat \<Rightarrow> bool"
  live :: "nat \<Rightarrow> string \<Rightarrow> version_data option"
  send_fails :: "nat \<Rightarrow> string \<Rightarrow> bool"
  save_fails :: "nat \<Rightarrow> bool"
  clock :: "nat \<Rightarrow> int"

section \<open>Logging and remote calls\<close>

definition console_log :: "string \<Rightarrow> world \<Rightarrow> world" where
  "console_log msg w = w\<lparr>trace := trace w @ [ConsoleLog msg]\<rparr>"

definition console_error :: "string \<Rightarrow> world \<Rightarrow> world" where
  "console_error msg w = w\<lparr>trace := trace w @ [ConsoleError msg]\<rparr>"

text \<open>\<^verbatim>\<open>log\<close> of the source; the name \<open>log\<close> is the logarithm in HOL.\<close>

definition log_msg :: "config \<Rightarrow> string \<Rightarrow> world \<Rightarrow> world" where
  "log_msg cfg msg w = (if verboseLogging cfg then console_log msg w else w)"

definition remote_call :: "event \<Rightarrow> world \<Rightarrow> world" where
  "remote_call e w = w\<lparr>trace := trace w @ [e], tick := Suc (tick w)\<rparr>"

section \<open>validateConfig\<close>

definition truthy :: "string option \<Rightarrow> bool" where
  "truthy v = (case v of None \<Rightarrow> False | Some s \<Rightarrow> s \<noteq> [])"

definition valid_item :: "slack_entry \<Rightarrow> bool" where
  "valid_item s = (truthy (slackWebhookUrl s) \<and> gtmContainers s \<noteq> None)"

definition validateConfig :: "config \<Rightarrow> validation" where
  "validateConfig cfg =
     (let msg0 = [];
          msg1 = (if gcs cfg = NoProperty then msg0 @ ''config_missing_gcs;'' else msg0);
          msg2 = (case gcs cfg of
                    Present g \<Rightarrow> if bucketName g = None
                                 then msg1 @ ''config_missing_gcs_bucketName;'' else msg1
                  | _ \<Rightarrow> msg1);
          msg3 = (case gcs cfg of
                    Present g \<Rightarrow> if fileName g = None
                                 then msg2 @ ''config_missing_gcs_fileName;'' else msg2
                  | _ \<Rightarrow> msg2);
          msg4 = (if slackOutput cfg = NoProperty
                  then msg3 @ ''config_missing_slackOutput;'' else msg3);
          msg5 = (case slackOutput cfg of
                    Present so \<Rightarrow> if length so = 0
                                  then msg4 @ ''config_missing_slackOutput_items;'' else msg4
                  | _ \<Rightarrow> msg4);
          msg6 = (case slackOutput cfg of
                    Present so \<Rightarrow> if length (filter valid_item so) \<noteq> length so
                                  then msg5 @ ''invalid_items_in_slackOutput;'' else msg5
                  | _ \<Rightarrow> msg5)
      in \<lparr>error = (msg6 \<noteq> []), errorMessage = msg6\<rparr>)"

section \<open>sendSlackMessage\<close>

definition sendSlackMessage_with ::
  "string \<Rightarrow> env \<Rightarrow> int option \<Rightarrow> version_data \<Rightarrow> string \<Rightarrow> world \<Rightarrow> world \<times> (exn + unit)" where
  "sendSlackMessage_with closing e lastChecked0 data webhookUrl w =
     (let now = clock e (tick w);
          delta = map_option (\<lambda>l. now - l) lastChecked0
      in case prettyMs e delta of
           None \<Rightarrow> (w, Inl TypeError)
         | Some ago \<Rightarrow>
             let payload =
                   [\<lparr>fallback = ''Container version '' @ data_containerVersionId data
                                  @ '' was recently published'',
                     color = ''#36a64f'',
                     pretext = ''A container version was recently published!'',
                     author_name = container_publicId data @ '': '' @ container_name data,
                     title = data_containerVersionId data @ '': ''
                               @ (case data_name data of
                                    None \<Rightarrow> ''(no name)''
                                  | Some n \<Rightarrow> if n = [] then ''(no name)'' else n),
                     title_link = tagManagerUrl data,
                     text_field = ''New published version found since last check (''
                                    @ ago @ closing,
                     mrkdwn_in = [''text''],
                     footer = ''by GTM Tools'',
                     ts = of_int now / 1000\<rparr>];
                 w' = remote_call (Send webhookUrl payload) w
             in if send_fails e (tick w) webhookUrl then (w', Inl SendError)
                else (w', Inr ()))"

definition sendSlackMessage_index ::
  "env \<Rightarrow> int option \<Rightarrow> version_data \<Rightarrow> string \<Rightarrow> world \<Rightarrow> world \<times> (exn + unit)" where
  "sendSlackMessage_index = sendSlackMessage_with '' ago)''"

definition sendSlackMessage_part ::
  "env \<Rightarrow> int option \<Rightarrow> version_data \<Rightarrow> string \<Rightarrow> world \<Rightarrow> world \<times> (exn + unit)" where
  "sendSlackMessage_part = sendSlackMessage_with '' ago).''"

section \<open>Container identifiers\<close>

text \<open>
  \<^verbatim>\<open>const [accountId, containerId] = gtmContainer.split('_')\<close>: the first two pieces of
  the string cut at every underscore.  A missing second piece is \<^verbatim>\<open>undefined\<close>, which
  the program only ever uses as a property name and inside template strings, where it
  reads as the text \<^verbatim>\<open>undefined\<close>.
\<close>

fun split_on :: "char \<Rightarrow> string \<Rightarrow> string list" where
  "split_on sep [] = [[]]"
| "split_on sep (c # cs) =
     (if c = sep then [] # split_on sep cs
      else (case split_on sep cs of
              [] \<Rightarrow> [[c]]
            | p # ps \<Rightarrow> (c # p) # ps))"

definition split_ids :: "string \<Rightarrow> string \<times> string" where
  "split_ids gtmContainer =
     (case split_on (CHR ''_'') gtmContainer of
        [] \<Rightarrow> (''undefined'', ''undefined'')
      | [a] \<Rightarrow> (a, ''undefined'')
      | a # c # _ \<Rightarrow> (a, c))"

definition parent_path :: "string \<Rightarrow> string \<Rightarrow> string" where
  "parent_path accountId containerId =
     ''accounts/'' @ accountId @ ''/containers/'' @ containerId"

definition tag :: "string \<Rightarrow> string \<Rightarrow> string" where
  "tag accountId containerId = accountId @ ''_'' @ containerId"

section \<open>The loop body of \<^verbatim>\<open>src/index.js\<close> (lines 137 to 166)\<close>

definition check_container_index ::
  "env \<Rightarrow> config \<Rightarrow> string \<Rightarrow> string \<Rightarrow> gtm_state \<Rightarrow> world \<Rightarrow> world \<times> (exn + gtm_state)" where
  "check_container_index e cfg webHookUrl gtmContainer gtmState w =
     (case split_ids gtmContainer of (accountId, containerId) \<Rightarrow>
      let w1 = log_msg cfg (tag accountId containerId @ '': Checking version state.'') w;
          res = live e (tick w1) (parent_path accountId containerId);
          w2 = remote_call (Live (parent_path accountId containerId)) w1
      in (case res of
           None \<Rightarrow> (w2, Inl FetchError)
         | Some data \<Rightarrow>
             let account = (case gtmState accountId of None \<Rightarrow> Map.empty | Some m \<Rightarrow> m);
                 w3 = (if account containerId = None
                       then log_msg cfg (tag accountId containerId
                              @ '': Previous entry missing, setting the current version as the new entry.'') w2
                       else w2);
                 entry = (case account containerId of
                            None \<Rightarrow> \<lparr>containerVersionId = Some (data_containerVersionId data),
                                      lastChecked = None\<rparr>
                          | Some r \<Rightarrow> r)
             in if containerVersionId entry \<noteq> Some (data_containerVersionId data)
                then (case sendSlackMessage_index e (lastChecked entry) data webHookUrl
                             (log_msg cfg (tag accountId containerId
                                @ '': New version published since previous entry, notifying Slack.'') w3) of
                        (w4, Inl x) \<Rightarrow> (w4, Inl x)
                      | (w4, Inr _) \<Rightarrow>
                          (w4, Inr (gtmState(accountId \<mapsto> account(containerId \<mapsto>
                                 entry\<lparr>containerVersionId := Some (data_containerVersionId data),
                                       lastChecked := Some (clock e (tick w4))\<rparr>)))))
                else (let w4 = log_msg cfg (tag accountId containerId
                                 @ '': Published version same as previous entry, or new entry altogether.'') w3
                      in (w4, Inr (gtmState(accountId \<mapsto> account(containerId \<mapsto>
                                 entry\<lparr>lastChecked := Some (clock e (tick w4))\<rparr>)))))))"

section \<open>The loop body of \<^verbatim>\<open>src/unnamed/part_000\<close>\<close>

definition addContainerToState :: "gtm_state \<Rightarrow> string \<Rightarrow> string \<Rightarrow> gtm_state" where
  "addContainerToState gtmState accountId containerId =
     (let account = (case gtmState accountId of None \<Rightarrow> Map.empty | Some m \<Rightarrow> m);
          entry = (case account containerId of
                     None \<Rightarrow> \<lparr>containerVersionId = None, lastChecked = None\<rparr>
                   | Some r \<Rightarrow> r)
      in gtmState(accountId \<mapsto> account(containerId \<mapsto> entry)))"

text \<open>
  \<^verbatim>\<open>gtmState[accountId][containerId]\<close> read for one of its fields, and assigned to in
  one of its fields: a \<^verbatim>\<open>TypeError\<close> when the account or the record is not there.
\<close>

definition read_entry :: "gtm_state \<Rightarrow> string \<Rightarrow> string \<Rightarrow> exn + container_record" where
  "read_entry gtmState accountId containerId =
     (case gtmState accountId of
        None \<Rightarrow> Inl TypeError
      | Some account \<Rightarrow>
          (case account containerId of None \<Rightarrow> Inl TypeError | Some r \<Rightarrow> Inr r))"

definition assign_entry ::
  "gtm_state \<Rightarrow> string \<Rightarrow> string \<Rightarrow> (container_record \<Rightarrow> container_record) \<Rightarrow> exn + gtm_state" where
  "assign_entry gtmState accountId containerId f =
     (case gtmState accountId of
        None \<Rightarrow> Inl TypeError
      | Some account \<Rightarrow>
          (case account containerId of
             None \<Rightarrow> Inl TypeError
           | Some r \<Rightarrow> Inr (gtmState(accountId \<mapsto> account(containerId \<mapsto> f r)))))"

definition checkPublishedVersionIdAgainstState ::
  "env \<Rightarrow> config \<Rightarrow> string \<Rightarrow> gtm_state \<Rightarrow> string \<Rightarrow> string \<Rightarrow> world \<Rightarrow> world \<times> (exn + gtm_state)" where
  "checkPublishedVersionIdAgainstState e cfg webHookUrl gtmState accountId containerId w =
     (let res = live e (tick w) (parent_path accountId containerId);
          w1 = remote_call (Live (parent_path accountId containerId)) w
      in case res of
           None \<Rightarrow> (w1, Inl FetchError)
         | Some data \<Rightarrow>
             (case read_entry gtmState accountId containerId of
                Inl x \<Rightarrow> (w1, Inl x)
              | Inr entry \<Rightarrow>
                  (case (if \<not> truthy (containerVersionId entry)
                         then (log_msg cfg (tag accountId containerId
                                 @ '': Previous entry missing, setting the current version as the new entry.'') w1,
                               Inr ())
                         else if containerVersionId entry \<noteq> Some (data_containerVersionId data)
                         then sendSlackMessage_part e (lastChecked entry) data webHookUrl
                                (log_msg cfg (tag accountId containerId
                                   @ '': New version published since previous entry, notifying Slack.'') w1)
                         else (log_msg cfg (tag accountId containerId
                                 @ '': Published version same as previous entry, or new entry altogether.'') w1,
                               Inr ())) of
                     (w2, Inl x) \<Rightarrow> (w2, Inl x)
                   | (w2, Inr _) \<Rightarrow>
                       (case assign_entry gtmState accountId containerId
                               (\<lambda>r. r\<lparr>containerVersionId := Some (data_containerVersionId data)\<rparr>) of
                          Inl x \<Rightarrow> (w2, Inl x)
                        | Inr gtmState' \<Rightarrow> (w2, Inr gtmState')))))"

text \<open>Lines 190 to 200 of \<^verbatim>\<open>src/unnamed/part_000\<close>.\<close>

definition check_container_part ::
  "env \<Rightarrow> config \<Rightarrow> string \<Rightarrow> string \<Rightarrow> gtm_state \<Rightarrow> world \<Rightarrow> world \<times> (exn + gtm_state)" where
  "check_container_part e cfg webHookUrl gtmContainer gtmState w =
     (case split_ids gtmContainer of (accountId, containerId) \<Rightarrow>
      let w1 = log_msg cfg (tag accountId containerId @ '': Checking version state.'') w;
          gtmState1 = addContainerToState gtmState accountId containerId
      in (case checkPublishedVersionIdAgainstState e cfg webHookUrl gtmState1
                accountId containerId w1 of
           (w2, Inl x) \<Rightarrow> (w2, Inl x)
         | (w2, Inr gtmState2) \<Rightarrow>
             (case assign_entry gtmState2 accountId containerId
                     (\<lambda>r. r\<lparr>lastChecked := Some (clock e (tick w2))\<rparr>) of
                Inl x \<Rightarrow> (w2, Inl x)
              | Inr gtmState3 \<Rightarrow> (w2, Inr gtmState3))))"

section \<open>getGtmInfo\<close>

text \<open>
  The frame of \<^verbatim>\<open>getGtmInfo\<close> is the same text in both files; \<open>body\<close> is the part of the
  inner loop that differs.  The branches that return \<open>TypeError\<close> without a remote call
  stand for destructuring \<^verbatim>\<open>undefined\<close> or \<^verbatim>\<open>null\<close> (line 105), iterating over
  \<^verbatim>\<open>undefined\<close> or \<^verbatim>\<open>null\<close>, and constructing a webhook or a bucket handle without a
  name.
\<close>

type_synonym body = "string \<Rightarrow> string \<Rightarrow> gtm_state \<Rightarrow> world \<Rightarrow> world \<times> (exn + gtm_state)"

fun containers_loop :: "(string \<Rightarrow> gtm_state \<Rightarrow> world \<Rightarrow> world \<times> (exn + gtm_state))
    \<Rightarrow> string list \<Rightarrow> gtm_state \<Rightarrow> world \<Rightarrow> world \<times> (exn + gtm_state)" where
  "containers_loop step [] gtmState w = (w, Inr gtmState)"
| "containers_loop step (gtmContainer # rest) gtmState w =
     (case step gtmContainer gtmState w of
        (w', Inl x) \<Rightarrow> (w', Inl x)
      | (w', Inr gtmState') \<Rightarrow> containers_loop step rest gtmState' w')"

fun slackOutput_loop :: "body \<Rightarrow> config \<Rightarrow> slack_entry list \<Rightarrow> gtm_state \<Rightarrow> world
    \<Rightarrow> world \<times> (exn + gtm_state)" where
  "slackOutput_loop body cfg [] gtmState w = (w, Inr gtmState)"
| "slackOutput_loop body cfg (slack # rest) gtmState w =
     (case slackWebhookUrl slack of
        None \<Rightarrow> (log_msg cfg ''Starting operation for webhook URL undefined'' w, Inl TypeError)
      | Some webHookUrl \<Rightarrow>
          (let w1 = log_msg cfg (''Starting operation for webhook URL '' @ webHookUrl) w
           in case gtmContainers slack of
                None \<Rightarrow> (w1, Inl TypeError)
              | Some containers \<Rightarrow>
                  (case containers_loop (body webHookUrl) containers gtmState w1 of
                     (w2, Inl x) \<Rightarrow> (w2, Inl x)
                   | (w2, Inr gtmState') \<Rightarrow> slackOutput_loop body cfg rest gtmState' w2)))"

text \<open>Lines 108 to 120 of \<^verbatim>\<open>src/index.js\<close>: the download, the parse and the \<^verbatim>\<open>catch\<close>.\<close>

definition load_state :: "env \<Rightarrow> string \<Rightarrow> string \<Rightarrow> world \<Rightarrow> world \<times> gtm_state" where
  "load_state e bucket file w =
     (let w1 = console_log ''Loading state from Cloud Storage.'' w;
          w2 = remote_call (Download bucket file) w1
      in if download_fails e (tick w1)
         then (console_log ''State file not found, creating a new one.'' w2, Map.empty)
         else (case store w1 (bucket, file) of
                 Doc gtmState \<Rightarrow>
                   (console_log ''State file found and loaded successfully.'' w2, gtmState)
               | _ \<Rightarrow> (console_log ''State file not found, creating a new one.'' w2, Map.empty)))"

text \<open>Line 122 to the end: authorisation, the two loops and the write.\<close>

definition run_loaded ::
  "body \<Rightarrow> config \<Rightarrow> env \<Rightarrow> string \<Rightarrow> string \<Rightarrow> gtm_state \<Rightarrow> world \<Rightarrow> world \<times> (exn + unit)" where
  "run_loaded body cfg e bucket file gtmState w =
     (let w1 = remote_call GetClient w
      in if getClient_fails e (tick w) then (w1, Inl AuthError)
         else (case slackOutput cfg of
                 NoProperty \<Rightarrow> (w1, Inl TypeError)
               | NullValue \<Rightarrow> (w1, Inl TypeError)
               | Present targets \<Rightarrow>
                   (case slackOutput_loop body cfg targets gtmState w1 of
                      (w2, Inl x) \<Rightarrow> (w2, Inl x)
                    | (w2, Inr gtmState') \<Rightarrow>
                        (let w3 = console_log ''Writing new state to Cloud Storage.'' w2;
                             w4 = remote_call (Save bucket file gtmState') w3
                         in if save_fails e (tick w3) then (w4, Inl SaveError)
                            else (w4\<lparr>store := (store w4)((bucket, file) := Doc gtmState')\<rparr>,
                                  Inr ())))))"

definition getGtmInfo_with :: "(env \<Rightarrow> config \<Rightarrow> body) \<Rightarrow> env \<Rightarrow> config \<Rightarrow> world \<Rightarrow> world \<times> (exn + unit)" where
  "getGtmInfo_with body e cfg w =
     (let w1 = console_log ''Validating config.json'' w;
          validated = validateConfig cfg
      in if error validated
         then (console_error (''Invalid config.json: '' @ errorMessage validated) w1, Inr ())
         else (let w2 = console_log ''Validation successful.'' w1
               in case gcs cfg of
                    NoProperty \<Rightarrow> (w2, Inl TypeError)
                  | NullValue \<Rightarrow> (w2, Inl TypeError)
                  | Present g \<Rightarrow>
                      (case (bucketName g, fileName g) of
                         (Some bucket, Some file) \<Rightarrow>
                           (case load_state e bucket file w2 of
                              (w3, gtmState) \<Rightarrow>
                                run_loaded (body e cfg) cfg e bucket file gtmState w3)
                       | _ \<Rightarrow> (w2, Inl TypeError))))"

text \<open>The two files, and \<^verbatim>\<open>getGtmInfo\<close> as each of them has it.\<close>

datatype variant = Index_js | Part_000

fun check_container :: "variant \<Rightarrow> env \<Rightarrow> config \<Rightarrow> body" where
  "check_container Index_js = check_container_index"
| "check_container Part_000 = check_container_part"

definition getGtmInfo :: "variant \<Rightarrow> env \<Rightarrow> config \<Rightarrow> world \<Rightarrow> world \<times> (exn + unit)" where
  "getGtmInfo v = getGtmInfo_with (check_container v)"

section \<open>Reading a trace\<close>

fun sends :: "event list \<Rightarrow> (string \<times> attachment list) list" where
  "sends [] = []"
| "sends (Send url payload # es) = (url, payload) # sends es"
| "sends (_ # es) = sends es"

fun fetches :: "event list \<Rightarrow> string list" where
  "fetches [] = []"
| "fetches (Live parent # es) = parent # fetches es"
| "fetches (_ # es) = fetches es"

fun is_remote :: "event \<Rightarrow> bool" where
  "is_remote (ConsoleLog _) = False"
| "is_remote (ConsoleError _) = False"
| "is_remote _ = True"

fun is_save :: "event \<Rightarrow> bool" where
  "is_save (Save _ _ _) = True"
| "is_save _ = False"

section \<open>Vocabulary of the claims\<close>

text \<open>\<^verbatim>\<open>gtmState[accountId][containerId]\<close>, when it is there.\<close>

definition stored_record :: "gtm_state \<Rightarrow> string \<Rightarrow> string \<Rightarrow> container_record option" where
  "stored_record gtmState accountId containerId =
     (case gtmState accountId of None \<Rightarrow> None | Some account \<Rightarrow> account containerId)"

text \<open>The path a configured container string is fetched under.\<close>

definition container_path :: "string \<Rightarrow> string" where
  "container_path gtmContainer =
     (case split_ids gtmContainer of (accountId, containerId) \<Rightarrow>
        parent_path accountId containerId)"

text \<open>
  The six failure causes of the configuration validator, as the source tests them.  A
  section is missing when the property is not there; its fields and its entries are
  only looked at when it holds an object or an array.  An entry lacks a webhook URL when
  the property is absent or the empty string, and lacks a container list when the
  property is absent.
\<close>

definition missing_gcs :: "config \<Rightarrow> bool" where
  "missing_gcs cfg = (gcs cfg = NoProperty)"

definition missing_bucketName :: "config \<Rightarrow> bool" where
  "missing_bucketName cfg =
     (case gcs cfg of Present g \<Rightarrow> bucketName g = None | _ \<Rightarrow> False)"

definition missing_fileName :: "config \<Rightarrow> bool" where
  "missing_fileName cfg =
     (case gcs cfg of Present g \<Rightarrow> fileName g = None | _ \<Rightarrow> False)"

definition missing_slackOutput :: "config \<Rightarrow> bool" where
  "missing_slackOutput cfg = (slackOutput cfg = NoProperty)"

definition empty_slackOutput :: "config \<Rightarrow> bool" where
  "empty_slackOutput cfg = (slackOutput cfg = Present [])"

definition lacks_url_or_list :: "slack_entry \<Rightarrow> bool" where
  "lacks_url_or_list s =
     (slackWebhookUrl s = None \<or> slackWebhookUrl s = Some [] \<or> gtmContainers s = None)"

definition invalid_items :: "config \<Rightarrow> bool" where
  "invalid_items cfg =
     (case slackOutput cfg of Present so \<Rightarrow> list_ex lacks_url_or_list so | _ \<Rightarrow> False)"

text \<open>The codes of the causes that hold, in the order of the checks.\<close>

definition failure_codes :: "config \<Rightarrow> string list" where
  "failure_codes cfg =
     (if missing_gcs cfg then [''config_missing_gcs''] else [])
   @ (if missing_bucketName cfg then [''config_missing_gcs_bucketName''] else [])
   @ (if missing_fileName cfg then [''config_missing_gcs_fileName''] else [])
   @ (if missing_slackOutput cfg then [''config_missing_slackOutput''] else [])
   @ (if empty_slackOutput cfg then [''config_missing_slackOutput_items''] else [])
   @ (if invalid_items cfg then [''invalid_items_in_slackOutput''] else [])"

text \<open>The paths of the configured containers, in the configured order.\<close>

definition target_paths :: "slack_entry \<Rightarrow> string list" where
  "target_paths s =
     map container_path (case gtmContainers s of None \<Rightarrow> [] | Some containers \<Rightarrow> containers)"

definition configured_paths :: "config \<Rightarrow> string list" where
  "configured_paths cfg =
     concat (map target_paths (case slackOutput cfg of Present targets \<Rightarrow> targets | _ \<Rightarrow> []))"

fun is_fetch :: "event \<Rightarrow> bool" where
  "is_fetch (Live _) = True"
| "is_fetch _ = False"

fun is_send :: "event \<Rightarrow> bool" where
  "is_send (Send _ _) = True"
| "is_send _ = False"

text \<open>The configured container strings, in the configured order.\<close>

definition target_containers :: "slack_entry \<Rightarrow> string list" where
  "target_containers s = (case gtmContainers s of None \<Rightarrow> [] | Some containers \<Rightarrow> containers)"

definition configured_containers :: "config \<Rightarrow> string list" where
  "configured_containers cfg =
     concat (map target_containers (case slackOutput cfg of Present targets \<Rightarrow> targets | _ \<Rightarrow> []))"

text \<open>
  The state holds nothing else for this container than what the remote side answers
  (at time 0, for a remote side whose version ids do not change): no record, or a
  record with the live version id.
\<close>

definition up_to_date :: "env \<Rightarrow> gtm_state \<Rightarrow> string \<Rightarrow> bool" where
  "up_to_date e gtmState gtmContainer =
     (case split_ids gtmContainer of (a, c) \<Rightarrow>
        (case live e 0 (parent_path a c) of
           None \<Rightarrow> True
         | Some data \<Rightarrow>
             (case stored_record gtmState a c of
                None \<Rightarrow> True
              | Some r \<Rightarrow> containerVersionId r = Some (data_containerVersionId data))))"

text \<open>
  The notification of \<^verbatim>\<open>src/unnamed/part_000\<close> that corresponds to one of
  \<^verbatim>\<open>src/index.js\<close>: its text ends with one more full stop.
\<close>

definition with_full_stop :: "attachment \<Rightarrow> attachment" where
  "with_full_stop att = att\<lparr>text_field := text_field att @ ''.''\<rparr>"

fun as_part :: "event \<Rightarrow> event" where
  "as_part (Send url payload) = Send url (map with_full_stop payload)"
| "as_part ev = ev"

text \<open>Every record of the state holds a non-empty \<^verbatim>\<open>containerVersionId\<close>.\<close>

definition versioned :: "gtm_state \<Rightarrow> bool" where
  "versioned gtmState =
     (\<forall>a account c r. gtmState a = Some account \<longrightarrow> account c = Some r
        \<longrightarrow> truthy (containerVersionId r))"

text \<open>
  The state holds a record for the container that was made by a pass of this
  environment: its \<^verbatim>\<open>containerVersionId\<close> is an id the remote side returned for the
  container's path, its \<^verbatim>\<open>lastChecked\<close> a time of the clock.
\<close>

definition observed :: "env \<Rightarrow> gtm_state \<Rightarrow> string \<Rightarrow> bool" where
  "observed e gtmState gtmContainer =
     (case split_ids gtmContainer of (a, c) \<Rightarrow>
        (\<exists>r t data t'. stored_record gtmState a c = Some r
            \<and> live e t (parent_path a c) = Some data
            \<and> containerVersionId r = Some (data_containerVersionId data)
            \<and> lastChecked r = Some (clock e t')))"

section \<open>Predicates used in the proofs\<close>

text \<open>
  What one pass of the loop body leaves behind: the bucket untouched, new events at the
  end of the trace, exactly one of them a fetch (of this container), none a write.
\<close>

definition step_frame :: "string \<Rightarrow> world \<Rightarrow> world \<Rightarrow> bool" where
  "step_frame gtmContainer w w' =
     (store w' = store w \<and>
      (\<exists>es. trace w' = trace w @ es \<and> fetches es = [container_path gtmContainer]
            \<and> filter is_save es = []))"

text \<open>The same for a loop over the containers with the paths \<open>paths\<close>.\<close>

definition loop_frame :: "string list \<Rightarrow> world \<Rightarrow> world \<Rightarrow> bool \<Rightarrow> bool" where
  "loop_frame paths w w' completed =
     (store w' = store w \<and>
      (\<exists>es. trace w' = trace w @ es \<and> prefix (fetches es) paths
            \<and> (completed \<longrightarrow> fetches es = paths)
            \<and> filter is_save es = []))"

text \<open>A run that ended with a fetch or send error ended right at that call.\<close>

definition stopped_at_call :: "world \<Rightarrow> exn \<Rightarrow> bool" where
  "stopped_at_call w x =
     (case x of
        FetchError \<Rightarrow> trace w \<noteq> [] \<and> is_fetch (last (trace w))
      | SendError \<Rightarrow> trace w \<noteq> [] \<and> is_send (last (trace w))
      | _ \<Rightarrow> True)"

definition run_frame :: "config \<Rightarrow> world \<Rightarrow> world \<Rightarrow> exn + unit \<Rightarrow> bool" where
  "run_frame cfg w w' r =
     (\<exists>es. trace w' = trace w @ es \<and> prefix (fetches es) (configured_paths cfg)
         \<and> (r = Inr () \<longrightarrow> fetches es = configured_paths cfg)
         \<and> (isl r \<longrightarrow> store w' = store w)
         \<and> (isl r \<longrightarrow> r \<noteq> Inl SaveError \<longrightarrow> filter is_save es = []))"

text \<open>
  A world of \<^verbatim>\<open>src/index.js\<close> and one of \<^verbatim>\<open>src/unnamed/part_000\<close> that went through
  the same remote calls, up to the full stop.
\<close>

definition twin :: "world \<Rightarrow> world \<Rightarrow> bool" where
  "twin wi wp =
     (store wp = store wi \<and> tick wp = tick wi
      \<and> filter is_remote (trace wp) = map as_part (filter is_remote (trace wi)))"

text \<open>The state has no record for the container with these two ids.\<close>

definition no_record :: "gtm_state \<Rightarrow> string \<times> string \<Rightarrow> bool" where
  "no_record gtmState ids = (case ids of (a, c) \<Rightarrow> stored_record gtmState a c = None)"

text \<open>The account's containers, an empty mapping when the account is new.\<close>

definition account_of :: "gtm_state \<Rightarrow> string \<Rightarrow> (string \<rightharpoonup> container_record)" where
  "account_of st a = (case st a of None \<Rightarrow> Map.empty | Some m \<Rightarrow> m)"

text \<open>
  The error a call throws when it is made after \<open>t\<close> remote calls.  A failed download
  is caught (line 118), so it throws nothing.
\<close>

fun thrown :: "env \<Rightarrow> nat \<Rightarrow> event \<Rightarrow> exn option" where
  "thrown e t (Live parent) = (if live e t parent = None then Some FetchError else None)"
| "thrown e t (Send url payload) = (if send_fails e t url then Some SendError else None)"
| "thrown e t GetClient = (if getClient_fails e t then Some AuthError else None)"
| "thrown e t (Save bucket file gtmState) = (if save_fails e t then Some SaveError else None)"
| "thrown e t _ = None"

text \<open>The error a result stands for, if it is one.\<close>

definition failure :: "exn + 'a \<Rightarrow> exn option" where
  "failure r = (case r of Inl x \<Rightarrow> Some x | Inr _ \<Rightarrow> None)"

text \<open>
  From \<open>w\<close> to \<open>w'\<close> events were added at the end of the trace, each remote call among
  them advanced the call counter by one, and a call that threw is the last event, its
  error the result.
\<close>

definition halts_at_throw :: "env \<Rightarrow> world \<Rightarrow> world \<Rightarrow> exn option \<Rightarrow> bool" where
  "halts_at_throw e w w' res =
     (\<exists>es. trace w' = trace w @ es \<and> tick w' = tick w + length (filter is_remote es)
        \<and> (\<forall>es1 ev es2 x. es = es1 @ ev # es2
              \<longrightarrow> thrown e (tick w + length (filter is_remote es1)) ev = Some x
              \<longrightarrow> es2 = [] \<and> res = Some x))"

text \<open>Every record of the state belongs to one of these paths.\<close>

definition known :: "gtm_state \<Rightarrow> string list \<Rightarrow> bool" where
  "known gtmState paths =
     (\<forall>a c. stored_record gtmState a c \<noteq> None \<longrightarrow> parent_path a c \<in> set paths)"

text \<open>
  Every notification among these events follows the fetch of a path that is one of
  \<open>paths\<close> or was fetched before among these events.
\<close>

definition only_repeats :: "string list \<Rightarrow> event list \<Rightarrow> bool" where
  "only_repeats paths es =
     (\<forall>es1 url payload es2. es = es1 @ Send url payload # es2
        \<longrightarrow> fetches es1 \<noteq> []
            \<and> last (fetches es1) \<in> set paths \<union> set (butlast (fetches es1)))"

text \<open>Every record of the state holds a \<^verbatim>\<open>lastChecked\<close>.\<close>

definition checked :: "gtm_state \<Rightarrow> bool" where
  "checked gtmState =
     (\<forall>a c r. stored_record gtmState a c = Some r \<longrightarrow> lastChecked r \<noteq> None)"

section \<open>Example inputs\<close>

text \<open>
  One notification target with the container \<^verbatim>\<open>123_456\<close>; a remote side that answers
  every call with version \<open>v\<close> and never fails; a state that remembers version \<open>v\<close> for
  that container.
\<close>

definition example_config :: "string list \<Rightarrow> config" where
  "example_config containers =
     \<lparr>gcs = Present \<lparr>bucketName = Some ''bucket'', fileName = Some ''state.json''\<rparr>,
      slackOutput = Present [\<lparr>slackWebhookUrl = Some ''https://hooks.slack.example/T1'',
                           gtmContainers = Some containers\<rparr>],
      verboseLogging = False\<rparr>"

definition example_data :: "string \<Rightarrow> version_data" where
  "example_data v =
     \<lparr>data_containerVersionId = v, container_publicId = ''GTM-ABC123'',
      container_name = ''Site'', data_name = None,
      tagManagerUrl = ''https://tagmanager.google.com/x''\<rparr>"

definition example_env :: "string \<Rightarrow> env" where
  "example_env v =
     \<lparr>prettyMs = (\<lambda>d. case d of None \<Rightarrow> None | Some n \<Rightarrow> Some ''1s''),
      download_fails = (\<lambda>t. False),
      getClient_fails = (\<lambda>t. False),
      live = (\<lambda>t parent. Some (example_data v)),
      send_fails = (\<lambda>t url. False),
      save_fails = (\<lambda>t. False),
      clock = (\<lambda>t. 1000 * int t)\<rparr>"

definition example_state :: "string option \<Rightarrow> gtm_state" where
  "example_state v =
     [''123'' \<mapsto> [''456'' \<mapsto> \<lparr>containerVersionId = v, lastChecked = Some 0\<rparr>]]"

definition example_world :: "blob \<Rightarrow> world" where
  "example_world b = \<lparr>store = (\<lambda>k. b), trace = [], tick = 0\<rparr>"

text \<open>A remote side that fails for container \<^verbatim>\<open>123_789\<close>.\<close>

definition failing_env :: env where
  "failing_env = (example_env ''5'')\<lparr>live := (\<lambda>t parent.
       if parent = ''accounts/123/containers/789'' then None
       else Some (example_data ''5''))\<rparr>"

text \<open>A webhook that rejects every message.\<close>

definition rejecting_env :: env where
  "rejecting_env = (example_env ''6'')\<lparr>send_fails := (\<lambda>t url. True)\<rparr>"

text \<open>
  A remote side on which version 6 is published after the second remote call of the run:
  the fetch at time 2 still returns version 5, every later one version 6.
\<close>

definition changing_env :: env where
  "changing_env = (example_env ''5'')\<lparr>live := (\<lambda>t parent.
       Some (example_data (if t \<le> 2 then ''5'' else ''6'')))\<rparr>"

text \<open>A state whose record for the container has a version id and no \<^verbatim>\<open>lastChecked\<close>.\<close>

definition unchecked_state :: "string \<Rightarrow> gtm_state" where
  "unchecked_state v =
     [''123'' \<mapsto> [''456'' \<mapsto> \<lparr>containerVersionId = Some v, lastChecked = None\<rparr>]]"

text \<open>
  The configuration \<^verbatim>\<open>{"gcs": null, "slackOutput": [{"slackWebhookUrl": ..., "gtmContainers":
  ["123_456"]}]}\<close>.
\<close>

definition null_gcs_config :: config where
  "null_gcs_config =
     \<lparr>gcs = NullValue,
      slackOutput = Present [\<lparr>slackWebhookUrl = Some ''https://hooks.slack.example/T1'',
                              gtmContainers = Some [''123_456'']\<rparr>],
      verboseLogging = False\<rparr>"

section \<open>Basic facts\<close>

lemma console_log_sel [simp]:
  "trace (console_log m w) = trace w @ [ConsoleLog m]"
  "store (console_log m w) = store w"
  "tick (console_log m w) = tick w"
  by (simp_all add: console_log_def)

lemma console_error_sel [simp]:
  "trace (console_error m w) = trace w @ [ConsoleError m]"
  "store (console_error m w) = store w"
  "tick (console_error m w) = tick w"
  by (simp_all add: console_error_def)

lemma log_msg_sel [simp]:
  "trace (log_msg cfg m w) = trace w @ (if verboseLogging cfg then [ConsoleLog m] else [])"
  "store (log_msg cfg m w) = store w"
  "tick (log_msg cfg m w) = tick w"
  by (simp_all add: log_msg_def)

lemma remote_call_sel [simp]:
  "trace (remote_call ev w) = trace w @ [ev]"
  "store (remote_call ev w) = store w"
  "tick (remote_call ev w) = Suc (tick w)"
  by (simp_all add: remote_call_def)

lemma sends_append [simp]: "sends (xs @ ys) = sends xs @ sends ys"
  by (induction xs rule: sends.induct) simp_all

lemma fetches_append [simp]: "fetches (xs @ ys) = fetches xs @ fetches ys"
  by (induction xs rule: fetches.induct) simp_all

lemma stored_record_upd [simp]:
  "stored_record (st(a \<mapsto> m(c \<mapsto> r))) a c = Some r"
  by (simp add: stored_record_def)

lemma split_ids_example [simp]: "split_ids ''123_456'' = (''123'', ''456'')"
  by (simp add: split_ids_def)

section \<open>The configuration validator\<close>

lemma length_filter_full: "length (filter P xs) = length xs \<longleftrightarrow> (\<forall>x\<in>set xs. P x)"
proof (induction xs)
  case Nil
  then show ?case by simp
next
  case (Cons x xs)
  have le: "length (filter P xs) \<le> length xs" by (rule length_filter_le)
  show ?case
  proof (cases "P x")
    case True
    with Cons show ?thesis by simp
  next
    case False
    from le have "length (filter P xs) \<noteq> Suc (length xs)" by arith
    with False show ?thesis by simp
  qed
qed

lemma valid_item_lacks: "valid_item s \<longleftrightarrow> \<not> lacks_url_or_list s"
  by (auto simp: valid_item_def lacks_url_or_list_def truthy_def split: option.splits)

lemma invalid_items_filter:
  "slackOutput cfg = Present so \<Longrightarrow>
     (length (filter valid_item so) \<noteq> length so) = invalid_items cfg"
  by (auto simp: invalid_items_def length_filter_full list_ex_iff valid_item_lacks)

lemma if_append: "(if b then xs @ c else xs) = xs @ (if b then c else [])"
  by simp

lemma concat_map_if: "concat (map f (if b then [c] else [])) = (if b then f c else [])"
  by simp

lemma errorMessage_codes:
  "errorMessage (validateConfig cfg) = concat (map (\<lambda>c. c @ '';'') (failure_codes cfg))"
proof (cases "slackOutput cfg")
  case NoProperty
  then show ?thesis
    by (cases "gcs cfg")
       (simp_all add: validateConfig_def Let_def failure_codes_def missing_gcs_def
        missing_bucketName_def missing_fileName_def missing_slackOutput_def
        empty_slackOutput_def invalid_items_def if_append concat_map_if
        split del: if_split cong: if_cong)
next
  case NullValue
  then show ?thesis
    by (cases "gcs cfg")
       (simp_all add: validateConfig_def Let_def failure_codes_def missing_gcs_def
        missing_bucketName_def missing_fileName_def missing_slackOutput_def
        empty_slackOutput_def invalid_items_def if_append concat_map_if
        split del: if_split cong: if_cong)
next
  case (Present so)
  from invalid_items_filter[OF Present] Present show ?thesis
    by (cases "gcs cfg")
       (simp_all add: validateConfig_def Let_def failure_codes_def missing_gcs_def
        missing_bucketName_def missing_fileName_def missing_slackOutput_def
        empty_slackOutput_def if_append concat_map_if
        split del: if_split cong: if_cong)
qed

lemma error_nonempty: "error (validateConfig cfg) = (errorMessage (validateConfig cfg) \<noteq> [])"
  by (simp add: validateConfig_def Let_def)

lemma error_iff_causes:
  "error (validateConfig cfg) \<longleftrightarrow>
     missing_gcs cfg \<or> missing_bucketName cfg \<or> missing_fileName cfg
     \<or> missing_slackOutput cfg \<or> empty_slackOutput cfg \<or> invalid_items cfg"
  by (simp add: error_nonempty errorMessage_codes failure_codes_def)

lemma split_on_piece:
  "sep \<notin> set p \<Longrightarrow> split_on sep (p @ sep # rest) = p # split_on sep rest"
  by (induction p) auto

lemma split_on_codes:
  "\<forall>c\<in>set cs. CHR '';'' \<notin> set c \<Longrightarrow>
     split_on (CHR '';'') (concat (map (\<lambda>c. c @ '';'') cs)) = cs @ [[]]"
  by (induction cs) (auto simp: split_on_piece)

lemma failure_codes_clean: "\<forall>c\<in>set (failure_codes cfg). CHR '';'' \<notin> set c"
  by (auto simp: failure_codes_def split: if_splits)

text \<open>
  Claim C4, as amended.  A configuration with a notification target whose
  \<^verbatim>\<open>gtmContainers\<close> property is absent is rejected: \<open>validateConfig\<close> returns
  \<open>error = True\<close>.  (The validator tests the property for truthiness, and an empty
  array is truthy, so an empty container list is not a cause of rejection.)
\<close>

theorem validateConfig_rejects_missing_containers:
  assumes "slackOutput cfg = Present so" and "s \<in> set so" and "gtmContainers s = None"
  shows "error (validateConfig cfg)"
proof -
  from assms(3) have "lacks_url_or_list s" by (simp add: lacks_url_or_list_def)
  with assms(1,2) have "invalid_items cfg" by (auto simp: invalid_items_def list_ex_iff)
  then show ?thesis by (simp add: error_iff_causes)
qed

theorem validateConfig_rejects_missing_containers_witness:
  "error (validateConfig
     \<lparr>gcs = Present \<lparr>bucketName = Some ''bucket'', fileName = Some ''state.json''\<rparr>,
      slackOutput = Present [\<lparr>slackWebhookUrl = Some ''https://hooks.slack.example/T1'',
                           gtmContainers = None\<rparr>],
      verboseLogging = False\<rparr>)"
  by (rule validateConfig_rejects_missing_containers
        [where so = "[\<lparr>slackWebhookUrl = Some ''https://hooks.slack.example/T1'',
                        gtmContainers = None\<rparr>]"
           and s = "\<lparr>slackWebhookUrl = Some ''https://hooks.slack.example/T1'',
                      gtmContainers = None\<rparr>"])
     simp_all

text \<open>
  Claim C4 as stated fails: the configuration below has a notification target whose
  container list is empty, and \<open>validateConfig\<close> accepts it.
\<close>

theorem validateConfig_accepts_empty_containers:
  "slackOutput (example_config []) =
     Present [\<lparr>slackWebhookUrl = Some ''https://hooks.slack.example/T1'',
               gtmContainers = Some []\<rparr>]
   \<and> \<not> error (validateConfig (example_config []))"
  by (simp add: example_config_def validateConfig_def valid_item_def truthy_def)



text \<open>
  Claim C5 fails on a section that holds \<^verbatim>\<open>null\<close>.  In the configuration
  \<^verbatim>\<open>{"gcs": null, "slackOutput": [...]}\<close> the object-store section is there and has
  neither a bucket name nor a file name.  The test of line 51 finds the property, the
  guards of lines 52 and 53 skip a falsy value, and \<open>validateConfig\<close> returns
  \<open>error = False\<close> with an empty message.  The run of either variant then logs that
  the validation was successful and throws at line 105, destructuring \<^verbatim>\<open>null\<close>.
\<close>

theorem validateConfig_accepts_null_gcs:
  "gcs null_gcs_config = NullValue
   \<and> validateConfig null_gcs_config = \<lparr>error = False, errorMessage = []\<rparr>
   \<and> getGtmInfo Index_js (example_env ''5'') null_gcs_config (example_world Absent)
       = (console_log ''Validation successful.''
            (console_log ''Validating config.json'' (example_world Absent)),
          Inl TypeError)
   \<and> getGtmInfo Part_000 (example_env ''5'') null_gcs_config (example_world Absent)
       = (console_log ''Validation successful.''
            (console_log ''Validating config.json'' (example_world Absent)),
          Inl TypeError)"
  by (simp add: null_gcs_config_def getGtmInfo_def getGtmInfo_with_def validateConfig_def
      valid_item_def truthy_def Let_def)

lemmas run_defs = getGtmInfo_def getGtmInfo_with_def validateConfig_def valid_item_def truthy_def
  load_state_def run_loaded_def check_container_index_def check_container_part_def
  checkPublishedVersionIdAgainstState_def addContainerToState_def read_entry_def assign_entry_def
  sendSlackMessage_index_def sendSlackMessage_part_def sendSlackMessage_with_def
  split_ids_def parent_path_def tag_def container_path_def Let_def
  example_config_def example_env_def example_data_def example_state_def example_world_def
  failing_env_def rejecting_env_def changing_env_def unchecked_state_def stored_record_def

section \<open>One pass of the loop body\<close>

lemmas part_defs = check_container_part_def checkPublishedVersionIdAgainstState_def
      sendSlackMessage_part_def sendSlackMessage_with_def
      addContainerToState_def read_entry_def assign_entry_def Let_def stored_record_def truthy_def

lemmas index_defs = check_container_index_def sendSlackMessage_index_def sendSlackMessage_with_def
      Let_def stored_record_def



text \<open>
  Claim C1 as stated fails in two places.  With the empty string on record and version
  6 live, the stored id differs from the fetched one, and \<^verbatim>\<open>src/unnamed/part_000\<close> takes
  the record for one without an id (line 127) and sends nothing.  With version 5 on
  record, no \<^verbatim>\<open>lastChecked\<close>, and version 6 live, both variants compute
  \<^verbatim>\<open>now - undefined\<close>, \<open>prettyMs\<close> rejects the \<^verbatim>\<open>NaN\<close> as the library does, and the pass
  ends with that error before anything is sent or stored.
\<close>

theorem new_version_not_notified:
  "stored_record (example_state (Some [])) ''123'' ''456''
     = Some \<lparr>containerVersionId = Some [], lastChecked = Some 0\<rparr>
   \<and> sends (trace (fst (check_container Part_000 (example_env ''6'') (example_config [''123_456''])
         ''https://hooks.slack.example/T1'' ''123_456'' (example_state (Some []))
         (example_world Absent)))) = []
   \<and> stored_record (unchecked_state ''5'') ''123'' ''456''
     = Some \<lparr>containerVersionId = Some ''5'', lastChecked = None\<rparr>
   \<and> snd (check_container Index_js (example_env ''6'') (example_config [''123_456''])
         ''https://hooks.slack.example/T1'' ''123_456'' (unchecked_state ''5'')
         (example_world Absent)) = Inl TypeError
   \<and> sends (trace (fst (check_container Index_js (example_env ''6'') (example_config [''123_456''])
         ''https://hooks.slack.example/T1'' ''123_456'' (unchecked_state ''5'')
         (example_world Absent)))) = []
   \<and> snd (check_container Part_000 (example_env ''6'') (example_config [''123_456''])
         ''https://hooks.slack.example/T1'' ''123_456'' (unchecked_state ''5'')
         (example_world Absent)) = Inl TypeError
   \<and> sends (trace (fst (check_container Part_000 (example_env ''6'') (example_config [''123_456''])
         ''https://hooks.slack.example/T1'' ''123_456'' (unchecked_state ''5'')
         (example_world Absent)))) = []"
  by (simp add: run_defs)

text \<open>
  Claim C3.  When the record's \<^verbatim>\<open>containerVersionId\<close> equals the id the live fetch
  returns, the pass of either variant sends nothing, and the record's \<^verbatim>\<open>lastChecked\<close>
  becomes the time at the end of the pass.
\<close>

theorem same_version_is_silent:
  assumes "split_ids gtmContainer = (a, c)"
    and "stored_record gtmState a c = Some r"
    and "containerVersionId r = Some (data_containerVersionId data)"
    and "live e (tick w) (parent_path a c) = Some data"
  shows "\<exists>w' st' r'. check_container v e cfg url gtmContainer gtmState w = (w', Inr st')
           \<and> sends (trace w') = sends (trace w)
           \<and> stored_record st' a c = Some r'
           \<and> containerVersionId r' = Some (data_containerVersionId data)
           \<and> lastChecked r' = Some (clock e (tick w'))"
proof (cases v)
  case Index_js
  with assms show ?thesis
    by (auto simp: index_defs split: option.splits)
next
  case Part_000
  with assms show ?thesis
    by (auto simp: part_defs split: option.splits)
qed

theorem same_version_is_silent_witness:
  "\<exists>w' st' r'.
      check_container Index_js (example_env ''5'') (example_config [''123_456''])
        ''https://hooks.slack.example/T1'' ''123_456'' (example_state (Some ''5''))
        (example_world Absent) = (w', Inr st')
      \<and> sends (trace w') = sends (trace (example_world Absent))
      \<and> stored_record st' ''123'' ''456'' = Some r'
      \<and> containerVersionId r' = Some (data_containerVersionId (example_data ''5''))
      \<and> lastChecked r' = Some (clock (example_env ''5'') (tick w'))"
  by (rule same_version_is_silent
        [where r = "\<lparr>containerVersionId = Some ''5'', lastChecked = Some 0\<rparr>"])
     (simp_all add: example_env_def example_state_def example_world_def example_data_def
        stored_record_def parent_path_def)

text \<open>
  First observations.  \<^verbatim>\<open>src/unnamed/part_000\<close> sends nothing when the container has
  no record or a record without a \<^verbatim>\<open>containerVersionId\<close>; \<^verbatim>\<open>src/index.js\<close> sends nothing
  when the container has no record.  Either way the record then holds the fetched id
  and the time at the end of the pass.
\<close>

lemma first_observation_part:
  assumes "split_ids gtmContainer = (a, c)"
    and "case stored_record gtmState a c of None \<Rightarrow> True
         | Some r \<Rightarrow> \<not> truthy (containerVersionId r)"
    and "live e (tick w) (parent_path a c) = Some data"
  shows "\<exists>w' st' r'. check_container_part e cfg url gtmContainer gtmState w = (w', Inr st')
           \<and> sends (trace w') = sends (trace w)
           \<and> stored_record st' a c = Some r'
           \<and> containerVersionId r' = Some (data_containerVersionId data)
           \<and> lastChecked r' = Some (clock e (tick w'))"
  using assms by (auto simp: part_defs split: option.splits)

lemma first_observation_index:
  assumes "split_ids gtmContainer = (a, c)"
    and "stored_record gtmState a c = None"
    and "live e (tick w) (parent_path a c) = Some data"
  shows "\<exists>w' st'. check_container_index e cfg url gtmContainer gtmState w = (w', Inr st')
           \<and> sends (trace w') = sends (trace w)
           \<and> stored_record st' a c =
                Some \<lparr>containerVersionId = Some (data_containerVersionId data),
                      lastChecked = Some (clock e (tick w'))\<rparr>"
  using assms by (auto simp: index_defs split: option.splits)

text \<open>
  Claim C2 fails in \<^verbatim>\<open>src/index.js\<close>.  The state document
  \<^verbatim>\<open>{"123": {"456": {"lastChecked": 0}}}\<close> has a record without a \<^verbatim>\<open>containerVersionId\<close>
  for the configured container \<^verbatim>\<open>123_456\<close>, and the live fetch returns version 7.  The
  run of \<^verbatim>\<open>src/index.js\<close> sends a notification to the target's webhook; the run of
  \<^verbatim>\<open>src/unnamed/part_000\<close> sends none.
\<close>

theorem record_without_version_run:
  "map fst (sends (trace (fst (getGtmInfo Index_js (example_env ''7'') (example_config [''123_456''])
      (example_world (Doc (example_state None)))))))
   = [''https://hooks.slack.example/T1'']
   \<and> sends (trace (fst (getGtmInfo Part_000 (example_env ''7'') (example_config [''123_456''])
      (example_world (Doc (example_state None))))))
   = []"
  by (simp add: run_defs)

section \<open>The loops and the frame of a run\<close>

lemma check_container_index_frame:
  "step_frame g w (fst (check_container_index e cfg url g st w))"
  by (auto simp: step_frame_def check_container_index_def sendSlackMessage_index_def
      sendSlackMessage_with_def container_path_def Let_def split: option.splits prod.splits)

lemma check_container_part_frame:
  "step_frame g w (fst (check_container_part e cfg url g st w))"
  by (auto simp: step_frame_def check_container_part_def checkPublishedVersionIdAgainstState_def
      sendSlackMessage_part_def sendSlackMessage_with_def container_path_def Let_def
      read_entry_def assign_entry_def addContainerToState_def
      split: option.splits prod.splits sum.splits)

lemma check_container_frame:
  "step_frame g w (fst (check_container v e cfg url g st w))"
  by (cases v) (simp_all add: check_container_index_frame check_container_part_frame)

lemma check_container_index_stopped:
  "check_container_index e cfg url g st w = (w', Inl x) \<Longrightarrow> stopped_at_call w' x"
  by (auto simp: stopped_at_call_def check_container_index_def sendSlackMessage_index_def
      sendSlackMessage_with_def Let_def split: option.splits prod.splits if_splits exn.splits)

lemma check_container_part_stopped:
  "check_container_part e cfg url g st w = (w', Inl x) \<Longrightarrow> stopped_at_call w' x"
  by (auto simp: stopped_at_call_def check_container_part_def checkPublishedVersionIdAgainstState_def
      sendSlackMessage_part_def sendSlackMessage_with_def Let_def
      read_entry_def assign_entry_def addContainerToState_def
      split: option.splits prod.splits sum.splits if_splits exn.splits)

lemma check_container_stopped:
  "check_container v e cfg url g st w = (w', Inl x) \<Longrightarrow> stopped_at_call w' x"
  by (cases v) (auto dest: check_container_index_stopped check_container_part_stopped)

lemma loop_frame_refl: "loop_frame [] w w True"
  by (simp add: loop_frame_def)

lemma loop_frame_nothing: "store w' = store w \<Longrightarrow> trace w' = trace w @ es \<Longrightarrow> fetches es = []
   \<Longrightarrow> filter is_save es = [] \<Longrightarrow> loop_frame ps w w' False"
  by (auto simp: loop_frame_def)

lemma loop_frame_step:
  assumes "step_frame g w w1" and "loop_frame ps w1 w2 done"
  shows "loop_frame (container_path g # ps) w w2 done"
  using assms by (auto simp: step_frame_def loop_frame_def)

lemma loop_frame_fail:
  assumes "step_frame g w w1"
  shows "loop_frame (container_path g # ps) w w1 False"
  using assms by (auto simp: step_frame_def loop_frame_def)

lemma containers_loop_frame:
  assumes "\<And>g st w. step_frame g w (fst (step g st w))"
  shows "loop_frame (map container_path gs) w (fst (containers_loop step gs st w))
           (\<not> isl (snd (containers_loop step gs st w)))"
proof (induction gs arbitrary: st w)
  case Nil
  then show ?case by (simp add: loop_frame_refl)
next
  case (Cons g gs)
  obtain w1 r where s: "step g st w = (w1, r)" by (cases "step g st w")
  from assms[of g w st] s have f: "step_frame g w w1" by simp
  show ?case
  proof (cases r)
    case (Inl x)
    with s f show ?thesis by (simp add: loop_frame_fail)
  next
    case (Inr st1)
    with s f Cons.IH[of w1 st1] show ?thesis by (simp add: loop_frame_step)
  qed
qed

lemma containers_loop_stopped:
  assumes "\<And>g st w w' x. step g st w = (w', Inl x) \<Longrightarrow> stopped_at_call w' x"
  shows "containers_loop step gs st w = (w', Inl x) \<Longrightarrow> stopped_at_call w' x"
proof (induction gs arbitrary: st w)
  case Nil
  then show ?case by simp
next
  case (Cons g gs)
  obtain w1 r where s: "step g st w = (w1, r)" by (cases "step g st w")
  show ?case
  proof (cases r)
    case (Inl y)
    with s Cons.prems assms[of g st w w1 y] show ?thesis by simp
  next
    case (Inr st1)
    with s Cons.prems Cons.IH[of st1 w1] show ?thesis by simp
  qed
qed

lemma containers_loop_abort:
  assumes "containers_loop step gs1 st w = (w1, Inr st1)"
    and "step g st1 w1 = (w2, Inl x)"
  shows "containers_loop step (gs1 @ g # gs2) st w = (w2, Inl x)"
  using assms
proof (induction gs1 arbitrary: st w)
  case Nil
  then show ?case by simp
next
  case (Cons h hs)
  obtain wh rh where s: "step h st w = (wh, rh)" by (cases "step h st w")
  show ?case
  proof (cases rh)
    case (Inl y)
    with s Cons.prems show ?thesis by simp
  next
    case (Inr sth)
    with s Cons.prems Cons.IH[of sth wh] show ?thesis by simp
  qed
qed

lemma loop_frame_after:
  assumes "store w1 = store w" and "trace w1 = trace w @ es0"
    and "fetches es0 = []" and "filter is_save es0 = []"
    and "loop_frame ps w1 w2 done"
  shows "loop_frame ps w w2 done"
  using assms by (auto simp: loop_frame_def)

lemma loop_frame_before:
  assumes "loop_frame ps w w1 done"
    and "store w2 = store w1" and "trace w2 = trace w1 @ es0"
    and "fetches es0 = []" and "filter is_save es0 = []"
  shows "loop_frame ps w w2 done"
  using assms by (auto simp: loop_frame_def)

lemma loop_frame_append:
  assumes "loop_frame ps1 w w1 True" and "loop_frame ps2 w1 w2 done"
  shows "loop_frame (ps1 @ ps2) w w2 done"
  using assms by (auto simp: loop_frame_def)

lemma loop_frame_cut:
  assumes "loop_frame ps1 w w1 done"
  shows "loop_frame (ps1 @ ps2) w w1 False"
  using assms by (auto simp: loop_frame_def)

lemma loop_frame_log:
  "loop_frame ps (log_msg cfg m w) w' done \<Longrightarrow> loop_frame ps w w' done"
  by (rule loop_frame_after[where ?w1.0 = "log_msg cfg m w"]) auto

lemma target_paths_Some: "gtmContainers s = Some gs \<Longrightarrow> target_paths s = map container_path gs"
  by (simp add: target_paths_def)

lemma slackOutput_loop_frame:
  assumes "\<And>url g st w. step_frame g w (fst (body url g st w))"
  shows "loop_frame (concat (map target_paths targets)) w
           (fst (slackOutput_loop body cfg targets st w))
           (\<not> isl (snd (slackOutput_loop body cfg targets st w)))"
proof (induction targets arbitrary: st w)
  case Nil
  then show ?case by (simp add: loop_frame_refl)
next
  case (Cons s targets)
  show ?case
  proof (cases "slackWebhookUrl s")
    case None
    then show ?thesis
      by (auto intro!: loop_frame_nothing[where es = "if verboseLogging cfg then [ConsoleLog ''Starting operation for webhook URL undefined''] else []"])
  next
    case url: (Some url)
    show ?thesis
    proof (cases "gtmContainers s")
      case None
      with url show ?thesis
        by (auto intro!: loop_frame_nothing[where es = "if verboseLogging cfg then [ConsoleLog (''Starting operation for webhook URL '' @ url)] else []"])
    next
      case (Some gs)
      let ?w1 = "log_msg cfg (''Starting operation for webhook URL '' @ url) w"
      obtain w2 r where c: "containers_loop (body url) gs st ?w1 = (w2, r)"
        by (cases "containers_loop (body url) gs st ?w1")
      have f: "loop_frame (map container_path gs) ?w1 w2 (\<not> isl r)"
        using containers_loop_frame[of "body url" gs ?w1 st, OF assms] c by simp
      show ?thesis
      proof (cases r)
        case (Inl x)
        with f have "loop_frame (map container_path gs @ concat (map target_paths targets)) ?w1 w2 False"
          by (auto intro: loop_frame_cut)
        then have "loop_frame (map container_path gs @ concat (map target_paths targets)) w w2 False"
          by (rule loop_frame_log)
        with url Some c Inl show ?thesis by (simp add: target_paths_Some)
      next
        case (Inr st1)
        with f have f1: "loop_frame (map container_path gs) ?w1 w2 True" by simp
        from loop_frame_append[OF f1 Cons.IH[of w2 st1]]
        have "loop_frame (map container_path gs @ concat (map target_paths targets)) w
                (fst (slackOutput_loop body cfg targets st1 w2))
                (\<not> isl (snd (slackOutput_loop body cfg targets st1 w2)))"
          by (rule loop_frame_log)
        with url Some c Inr show ?thesis by (simp add: target_paths_Some)
      qed
    qed
  qed
qed

lemma slackOutput_loop_stopped:
  assumes "\<And>url g st w w' x. body url g st w = (w', Inl x) \<Longrightarrow> stopped_at_call w' x"
  shows "slackOutput_loop body cfg targets st w = (w', Inl x)
         \<Longrightarrow> x = TypeError \<or> stopped_at_call w' x"
proof (induction targets arbitrary: st w)
  case Nil
  then show ?case by simp
next
  case (Cons s targets)
  show ?case
  proof (cases "slackWebhookUrl s")
    case None
    with Cons.prems show ?thesis by auto
  next
    case url: (Some url)
    show ?thesis
    proof (cases "gtmContainers s")
      case None
      with url Cons.prems show ?thesis by auto
    next
      case (Some gs)
      let ?w1 = "log_msg cfg (''Starting operation for webhook URL '' @ url) w"
      obtain w2 r where c: "containers_loop (body url) gs st ?w1 = (w2, r)"
        by (cases "containers_loop (body url) gs st ?w1")
      show ?thesis
      proof (cases r)
        case (Inl y)
        with url Some c Cons.prems have "w2 = w'" "y = x" by simp_all
        with c Inl containers_loop_stopped[of "body url" gs st ?w1 w' x] assms
        show ?thesis by blast
      next
        case (Inr st1)
        with url Some c Cons.prems Cons.IH[of st1 w2] show ?thesis by simp
      qed
    qed
  qed
qed

lemma run_frame_after:
  assumes "trace w1 = trace w @ pre" and "store w1 = store w"
    and "fetches pre = []" and "filter is_save pre = []"
    and "run_frame cfg w1 w2 r"
  shows "run_frame cfg w w2 r"
  using assms by (auto simp: run_frame_def)

lemma run_loaded_frame:
  assumes "\<And>url g st w. step_frame g w (fst (body url g st w))"
  shows "run_frame cfg w (fst (run_loaded body cfg e b f st w))
           (snd (run_loaded body cfg e b f st w))"
proof (cases "getClient_fails e (tick w)")
  case True
  then show ?thesis by (simp add: run_loaded_def run_frame_def)
next
  case nofail: False
  show ?thesis
  proof (cases "slackOutput cfg")
    case NoProperty
    with nofail show ?thesis by (simp add: run_loaded_def run_frame_def configured_paths_def)
  next
    case NullValue
    with nofail show ?thesis by (simp add: run_loaded_def run_frame_def configured_paths_def)
  next
    case (Present targets)
    note Some = Present
    let ?w1 = "remote_call GetClient w"
    obtain w2 r where l: "slackOutput_loop body cfg targets st ?w1 = (w2, r)"
      by (cases "slackOutput_loop body cfg targets st ?w1")
    from slackOutput_loop_frame[of body targets ?w1 cfg st, OF assms] l Some
    have f: "loop_frame (configured_paths cfg) ?w1 w2 (\<not> isl r)"
      by (simp add: configured_paths_def)
    then obtain es where es: "trace w2 = trace ?w1 @ es" "prefix (fetches es) (configured_paths cfg)"
      "\<not> isl r \<longrightarrow> fetches es = configured_paths cfg" "filter is_save es = []"
      "store w2 = store w"
      by (auto simp: loop_frame_def)
    show ?thesis
    proof (cases r)
      case (Inl x)
      with nofail Some l es show ?thesis
        by (simp add: run_loaded_def run_frame_def)
    next
      case (Inr st1)
      with es have full: "fetches es = configured_paths cfg" by simp
      from nofail Some l Inr es full show ?thesis
        by (auto simp: run_loaded_def run_frame_def Let_def)
    qed
  qed
qed

lemma run_loaded_stopped:
  assumes "\<And>url g st w w' x. body url g st w = (w', Inl x) \<Longrightarrow> stopped_at_call w' x"
    and "run_loaded body cfg e b f st w = (w', Inl x)"
    and "x = FetchError \<or> x = SendError"
  shows "stopped_at_call w' x"
proof -
  from assms(2,3) obtain targets where t: "slackOutput cfg = Present targets"
    and l: "slackOutput_loop body cfg targets st (remote_call GetClient w) = (w', Inl x)"
    by (auto simp: run_loaded_def Let_def split: if_splits option.splits property.splits prod.splits sum.splits)
  from slackOutput_loop_stopped[of body cfg targets st "remote_call GetClient w" w' x] assms(1,3) l
  show ?thesis by blast
qed

lemma load_state_sel:
  "store (fst (load_state e b f w)) = store w"
  "\<exists>es. trace (fst (load_state e b f w)) = trace w @ es \<and> fetches es = [] \<and> filter is_save es = []"
  by (auto simp: load_state_def Let_def split: blob.splits)


section \<open>Whole runs\<close>

text \<open>
  Claim C6.  When \<open>validateConfig\<close> reports an error, a run of either variant logs
  the message and returns: the world it leaves is the one it found with two console
  lines added.  The bucket is as before, no remote call was made (no download, no
  authorisation, no fetch, no send, no write).
\<close>

theorem invalid_config_aborts:
  assumes "error (validateConfig cfg)"
  shows "getGtmInfo v e cfg w =
           (console_error (''Invalid config.json: '' @ errorMessage (validateConfig cfg))
              (console_log ''Validating config.json'' w),
            Inr ())
         \<and> store (fst (getGtmInfo v e cfg w)) = store w
         \<and> tick (fst (getGtmInfo v e cfg w)) = tick w
         \<and> filter is_remote (trace (fst (getGtmInfo v e cfg w))) = filter is_remote (trace w)"
  using assms
  by (simp add: getGtmInfo_def getGtmInfo_with_def Let_def)

theorem invalid_config_aborts_witness:
  "getGtmInfo Part_000 (example_env ''5'')
     \<lparr>gcs = NoProperty, slackOutput = Present [], verboseLogging = True\<rparr>
     (example_world (Doc (example_state (Some ''4'')))) =
   (console_error ''Invalid config.json: config_missing_gcs;config_missing_slackOutput_items;''
      (console_log ''Validating config.json'' (example_world (Doc (example_state (Some ''4''))))),
    Inr ())"
  using invalid_config_aborts
    [of "\<lparr>gcs = NoProperty, slackOutput = Present [], verboseLogging = True\<rparr>" Part_000
        "example_env ''5''" "example_world (Doc (example_state (Some ''4'')))"]
  by (simp add: validateConfig_def)

section \<open>A call that throws ends the run\<close>

lemma failure_simps [simp]: "failure (Inl x) = Some x" "failure (Inr y) = None"
  by (simp_all add: failure_def)

lemma halts_refl: "halts_at_throw e w w r"
  by (simp add: halts_at_throw_def)

lemma halts_seq:
  assumes "halts_at_throw e w w1 None" and "halts_at_throw e w1 w2 r"
  shows "halts_at_throw e w w2 r"
proof -
  from assms(1) obtain es where es: "trace w1 = trace w @ es"
    "tick w1 = tick w + length (filter is_remote es)"
    "\<forall>es1 ev es2 x. es = es1 @ ev # es2
        \<longrightarrow> thrown e (tick w + length (filter is_remote es1)) ev \<noteq> Some x"
    by (auto simp: halts_at_throw_def)
  from assms(2) obtain fs where fs: "trace w2 = trace w1 @ fs"
    "tick w2 = tick w1 + length (filter is_remote fs)"
    "\<forall>es1 ev es2 x. fs = es1 @ ev # es2
        \<longrightarrow> thrown e (tick w1 + length (filter is_remote es1)) ev = Some x
        \<longrightarrow> es2 = [] \<and> r = Some x"
    by (auto simp: halts_at_throw_def)
  have "es2 = [] \<and> r = Some x"
    if d: "es @ fs = es1 @ ev # es2"
      and t: "thrown e (tick w + length (filter is_remote es1)) ev = Some x"
    for es1 ev es2 x
  proof -
    from d obtain us where "es = es1 @ us \<and> us @ fs = ev # es2 \<or> es @ us = es1 \<and> fs = us @ ev # es2"
      by (auto simp: append_eq_append_conv2)
    then show ?thesis
    proof
      assume a: "es = es1 @ us \<and> us @ fs = ev # es2"
      show ?thesis
      proof (cases us)
        case Nil
        with a have f: "fs = [] @ ev # es2" and "es1 = es" by simp_all
        with t es(2) have "thrown e (tick w1 + length (filter is_remote [])) ev = Some x" by simp
        with fs(3) f show ?thesis by blast
      next
        case (Cons u us')
        with a have "es = es1 @ ev # us'" by simp
        with es(3) t show ?thesis by blast
      qed
    next
      assume a: "es @ us = es1 \<and> fs = us @ ev # es2"
      then have "tick w + length (filter is_remote es1) = tick w1 + length (filter is_remote us)"
        using es(2) by auto
      with t have "thrown e (tick w1 + length (filter is_remote us)) ev = Some x" by simp
      with a fs(3) show ?thesis by blast
    qed
  qed
  with es(1,2) fs(1,2) show ?thesis
    unfolding halts_at_throw_def
    by (intro exI[of _ "es @ fs"]) auto
qed

lemma halts_event:
  assumes "trace w' = trace w @ [ev]"
    and "tick w' = tick w + (if is_remote ev then 1 else 0)"
    and "\<forall>x. thrown e (tick w) ev = Some x \<longrightarrow> r = Some x"
  shows "halts_at_throw e w w' r"
  unfolding halts_at_throw_def
  using assms
  by (intro exI[of _ "[ev]"]) (auto simp: Cons_eq_append_conv)

lemma halts_console: "halts_at_throw e w w0 None \<Longrightarrow> halts_at_throw e w (console_log m w0) r"
  by (erule halts_seq) (rule halts_event[where ev = "ConsoleLog m"], simp_all)

lemma halts_console_error:
  "halts_at_throw e w w0 None \<Longrightarrow> halts_at_throw e w (console_error m w0) r"
  by (erule halts_seq) (rule halts_event[where ev = "ConsoleError m"], simp_all)

lemma halts_weaken: "halts_at_throw e w w0 None \<Longrightarrow> halts_at_throw e w w0 r"
  by (auto simp: halts_at_throw_def)

lemma halts_log: "halts_at_throw e w w0 None \<Longrightarrow> halts_at_throw e w (log_msg cfg m w0) r"
  by (simp add: log_msg_def halts_console halts_weaken)

lemma halts_call:
  "halts_at_throw e w w0 None \<Longrightarrow> \<forall>x. thrown e (tick w0) ev = Some x \<longrightarrow> r = Some x
   \<Longrightarrow> is_remote ev \<Longrightarrow> halts_at_throw e w (remote_call ev w0) r"
  by (erule halts_seq) (rule halts_event[where ev = ev], simp_all)

lemmas halts_intros = halts_call halts_log halts_console halts_refl

lemma check_container_index_halts:
  "check_container_index e cfg url g st w = (w', r) \<Longrightarrow> halts_at_throw e w w' (failure r)"
  by (auto simp: check_container_index_def sendSlackMessage_index_def
      sendSlackMessage_with_def Let_def split: option.splits prod.splits if_splits
      intro!: halts_intros)

lemma check_container_part_halts:
  "check_container_part e cfg url g st w = (w', r) \<Longrightarrow> halts_at_throw e w w' (failure r)"
  by (auto simp: check_container_part_def checkPublishedVersionIdAgainstState_def
      sendSlackMessage_part_def sendSlackMessage_with_def Let_def
      read_entry_def assign_entry_def addContainerToState_def
      split: option.splits prod.splits sum.splits if_splits
      intro!: halts_intros)

lemma check_container_halts:
  "check_container v e cfg url g st w = (w', r) \<Longrightarrow> halts_at_throw e w w' (failure r)"
  by (cases v) (auto dest: check_container_index_halts check_container_part_halts)


lemma containers_loop_halts:
  assumes "\<And>g st w w' r. step g st w = (w', r) \<Longrightarrow> halts_at_throw e w w' (failure r)"
  shows "containers_loop step gs st w = (w', r) \<Longrightarrow> halts_at_throw e w w' (failure r)"
proof (induction gs arbitrary: st w)
  case Nil
  then show ?case by (auto intro: halts_refl)
next
  case (Cons g gs)
  obtain w1 r1 where s: "step g st w = (w1, r1)" by (cases "step g st w")
  from assms[OF s] have h: "halts_at_throw e w w1 (failure r1)" .
  show ?case
  proof (cases r1)
    case (Inl x)
    with s h Cons.prems show ?thesis by auto
  next
    case (Inr st1)
    with s Cons.prems have "containers_loop step gs st1 w1 = (w', r)" by simp
    from Cons.IH[OF this] h Inr show ?thesis by (auto intro: halts_seq)
  qed
qed

lemma slackOutput_loop_halts:
  assumes "\<And>url g st w w' r. body url g st w = (w', r) \<Longrightarrow> halts_at_throw e w w' (failure r)"
  shows "slackOutput_loop body cfg targets st w = (w', r) \<Longrightarrow> halts_at_throw e w w' (failure r)"
proof (induction targets arbitrary: st w)
  case Nil
  then show ?case by (auto intro: halts_refl)
next
  case (Cons s targets)
  show ?case
  proof (cases "slackWebhookUrl s")
    case None
    with Cons.prems show ?thesis by (auto intro!: halts_intros)
  next
    case url: (Some url)
    let ?w1 = "log_msg cfg (''Starting operation for webhook URL '' @ url) w"
    have h1: "halts_at_throw e w ?w1 None" by (intro halts_intros)
    show ?thesis
    proof (cases "gtmContainers s")
      case None
      with url Cons.prems show ?thesis by (auto intro!: halts_intros)
    next
      case (Some gs)
      obtain w2 r2 where c: "containers_loop (body url) gs st ?w1 = (w2, r2)"
        by (cases "containers_loop (body url) gs st ?w1")
      from containers_loop_halts[of "body url" e gs st ?w1 w2 r2] assms c
      have h2: "halts_at_throw e ?w1 w2 (failure r2)" by blast
      show ?thesis
      proof (cases r2)
        case (Inl x)
        with url Some c Cons.prems have "w' = w2" "r = Inl x" by simp_all
        with h1 h2 Inl show ?thesis by (auto intro: halts_seq)
      next
        case (Inr st1)
        with url Some c Cons.prems
        have "slackOutput_loop body cfg targets st1 w2 = (w', r)" by simp
        from Cons.IH[OF this] h1 h2 Inr show ?thesis by (auto intro: halts_seq)
      qed
    qed
  qed
qed

lemma halts_store: "halts_at_throw e w w0 r \<Longrightarrow> halts_at_throw e w (w0\<lparr>store := s\<rparr>) r"
  by (simp add: halts_at_throw_def)

lemma run_loaded_halts:
  assumes "\<And>url g st w w' r. body url g st w = (w', r) \<Longrightarrow> halts_at_throw e w w' (failure r)"
    and "run_loaded body cfg e b f st w = (w', r)"
  shows "halts_at_throw e w w' (failure r)"
proof (cases "getClient_fails e (tick w)")
  case True
  with assms(2) show ?thesis by (auto simp: run_loaded_def intro!: halts_intros)
next
  case nofail: False
  let ?w1 = "remote_call GetClient w"
  have h1: "halts_at_throw e w ?w1 None" using nofail by (auto intro!: halts_intros)
  show ?thesis
  proof (cases "slackOutput cfg")
    case NoProperty
    with nofail assms(2) h1 show ?thesis by (auto simp: run_loaded_def intro: halts_weaken)
  next
    case NullValue
    with nofail assms(2) h1 show ?thesis by (auto simp: run_loaded_def intro: halts_weaken)
  next
    case (Present targets)
    obtain w2 r2 where l: "slackOutput_loop body cfg targets st ?w1 = (w2, r2)"
      by (cases "slackOutput_loop body cfg targets st ?w1")
    from slackOutput_loop_halts[of body e cfg targets st ?w1 w2 r2] assms(1) l
    have h2: "halts_at_throw e ?w1 w2 (failure r2)" by blast
    show ?thesis
    proof (cases r2)
      case (Inl x)
      with nofail Present l assms(2) have "w' = w2" "r = Inl x" by (simp_all add: run_loaded_def)
      with h1 h2 Inl show ?thesis by (auto intro: halts_seq)
    next
      case (Inr st1)
      with h1 h2 have h3: "halts_at_throw e w w2 None" by (auto intro: halts_seq)
      from nofail Present l Inr assms(2) show ?thesis
        by (auto simp: run_loaded_def Let_def split: if_splits
            intro!: halts_store halts_call halts_console h3)
    qed
  qed
qed

lemma load_state_halts: "halts_at_throw e w (fst (load_state e b f w)) None"
  by (auto simp: load_state_def Let_def split: blob.splits intro!: halts_intros)

lemma getGtmInfo_halts:
  assumes "getGtmInfo v e cfg w = (w', r)"
  shows "halts_at_throw e w w' (failure r)"
proof (cases "error (validateConfig cfg)")
  case True
  with assms show ?thesis
    by (auto simp: getGtmInfo_def getGtmInfo_with_def Let_def
        intro!: halts_console_error halts_intros)
next
  case valid: False
  let ?w2 = "console_log ''Validation successful.'' (console_log ''Validating config.json'' w)"
  have h2: "halts_at_throw e w ?w2 None" by (intro halts_intros)
  show ?thesis
  proof (cases "\<exists>g b f. gcs cfg = Present g \<and> bucketName g = Some b \<and> fileName g = Some f")
    case False
    with valid assms have "w' = ?w2"
      by (auto simp: getGtmInfo_def getGtmInfo_with_def Let_def
          split: option.splits property.splits)
    with h2 show ?thesis by (auto intro: halts_weaken)
  next
    case True
    then obtain g b f where g: "gcs cfg = Present g" "bucketName g = Some b" "fileName g = Some f"
      by blast
    obtain w3 st where ld: "load_state e b f ?w2 = (w3, st)" by (cases "load_state e b f ?w2")
    from load_state_halts[of e ?w2 b f] ld have "halts_at_throw e ?w2 w3 None" by simp
    with h2 have h3: "halts_at_throw e w w3 None" by (rule halts_seq)
    from valid g ld assms
    have "run_loaded (check_container v e cfg) cfg e b f st w3 = (w', r)"
      by (simp add: getGtmInfo_def getGtmInfo_with_def Let_def)
    from run_loaded_halts[OF _ this] have "halts_at_throw e w3 w' (failure r)"
      by (blast intro: check_container_halts)
    with h3 show ?thesis by (rule halts_seq)
  qed
qed

lemma fetch_failure_fails_pass:
  assumes "live e (tick w) (container_path g) = None"
  shows "snd (check_container v e cfg url g st w) = Inl FetchError
         \<and> last (trace (fst (check_container v e cfg url g st w))) = Live (container_path g)"
proof (cases v)
  case Index_js
  with assms show ?thesis
    by (auto simp: check_container_index_def container_path_def Let_def split: prod.splits)
next
  case Part_000
  with assms show ?thesis
    by (auto simp: check_container_part_def checkPublishedVersionIdAgainstState_def
        container_path_def Let_def split: prod.splits)
qed

lemma failure_Some: "failure r = Some x \<longleftrightarrow> r = Inl x"
  by (cases r) simp_all

lemma getGtmInfo_frame:
  assumes "getGtmInfo v e cfg w = (w', r)"
  shows "(\<exists>es. trace w' = trace w @ es \<and> prefix (fetches es) (configured_paths cfg)
            \<and> (\<not> error (validateConfig cfg) \<and> r = Inr () \<longrightarrow> fetches es = configured_paths cfg)
            \<and> (r = Inl FetchError \<or> r = Inl SendError \<longrightarrow>
                  filter is_save es = [] \<and> store w' = store w))
         \<and> (r = Inl FetchError \<longrightarrow> is_fetch (last (trace w')))
         \<and> (r = Inl SendError \<longrightarrow> is_send (last (trace w')))"
proof (intro conjI allI impI)
  show "\<exists>es. trace w' = trace w @ es \<and> prefix (fetches es) (configured_paths cfg)
            \<and> (\<not> error (validateConfig cfg) \<and> r = Inr () \<longrightarrow> fetches es = configured_paths cfg)
            \<and> (r = Inl FetchError \<or> r = Inl SendError \<longrightarrow>
                  filter is_save es = [] \<and> store w' = store w)"
  proof (cases "error (validateConfig cfg)")
    case True
    with assms show ?thesis
      by (auto simp: getGtmInfo_def getGtmInfo_with_def Let_def)
  next
    case valid: False
    show ?thesis
    proof (cases "gcs cfg")
      case NoProperty
      with valid assms show ?thesis
        by (auto simp: getGtmInfo_def getGtmInfo_with_def Let_def)
    next
      case NullValue
      with valid assms show ?thesis
        by (auto simp: getGtmInfo_def getGtmInfo_with_def Let_def)
    next
      case (Present g)
      note Some = Present
      show ?thesis
      proof (cases "\<exists>b f. bucketName g = Some b \<and> fileName g = Some f")
        case False
        with valid Some assms show ?thesis
          by (auto simp: getGtmInfo_def getGtmInfo_with_def Let_def split: option.splits property.splits)
      next
        case True
        then obtain b f where bf: "bucketName g = Some b" "fileName g = Some f" by blast
        let ?w2 = "console_log ''Validation successful.'' (console_log ''Validating config.json'' w)"
        obtain w3 st where ld: "load_state e b f ?w2 = (w3, st)"
          by (cases "load_state e b f ?w2")
        from load_state_sel[of e b f ?w2] ld obtain es0 where
          es0: "store w3 = store w" "trace w3 = trace ?w2 @ es0" "fetches es0 = []"
               "filter is_save es0 = []"
          by auto
        from valid Some bf ld assms
        have run: "run_loaded (check_container v e cfg) cfg e b f st w3 = (w', r)"
          by (simp add: getGtmInfo_def getGtmInfo_with_def Let_def)
        have "run_frame cfg w3 w' r"
          using run_loaded_frame[of "check_container v e cfg" cfg w3 e b f st] run
          by (simp add: check_container_frame)
        then have "run_frame cfg w w' r"
          by (rule run_frame_after[where pre = "[ConsoleLog ''Validating config.json'',
                ConsoleLog ''Validation successful.''] @ es0", rotated -1])
             (simp_all add: es0)
        then show ?thesis by (auto simp: run_frame_def)
      qed
    qed
  qed
next
  assume "r = Inl FetchError"
  with assms have "stopped_at_call w' FetchError"
    by (auto simp: getGtmInfo_def getGtmInfo_with_def Let_def
        split: if_splits option.splits property.splits prod.splits
        intro: run_loaded_stopped[where body = "check_container v e cfg"] check_container_stopped)
  then show "is_fetch (last (trace w'))" by (simp add: stopped_at_call_def)
next
  assume "r = Inl SendError"
  with assms have "stopped_at_call w' SendError"
    by (auto simp: getGtmInfo_def getGtmInfo_with_def Let_def
        split: if_splits option.splits property.splits prod.splits
        intro: run_loaded_stopped[where body = "check_container v e cfg"] check_container_stopped)
  then show "is_send (last (trace w'))" by (simp add: stopped_at_call_def)
qed

text \<open>
  Claim C8.  In a run of either variant the containers are fetched in the configured
  order: the fetches of the run are a prefix of the configured paths, and all of them
  when a valid configuration ran to the end.  When the fetch for a container throws
  (\<open>live\<close> answers \<open>None\<close> to the call, made after as many remote calls as the trace
  shows before it), that fetch is the last event of the run: no later container is
  fetched, nothing is written, the bucket is as the run found it, and the run ends with
  the fetch error.  The same holds when the webhook rejects a notification.  Conversely
  a run that ends with a fetch or a send error ends at that very call and has written
  nothing.  At the level of the loops: the pass of a container whose fetch throws fails,
  and when the pass for one container fails, the loop over its target returns that
  failure whatever containers follow.
\<close>

theorem run_order_and_abort:
  assumes "getGtmInfo v e cfg w = (w', r)"
  shows "(\<exists>es. trace w' = trace w @ es \<and> prefix (fetches es) (configured_paths cfg)
            \<and> (\<not> error (validateConfig cfg) \<and> r = Inr () \<longrightarrow> fetches es = configured_paths cfg)
            \<and> (\<forall>es1 parent es2. es = es1 @ Live parent # es2
                  \<longrightarrow> live e (tick w + length (filter is_remote es1)) parent = None
                  \<longrightarrow> es2 = [] \<and> r = Inl FetchError
                      \<and> filter is_save es = [] \<and> store w' = store w)
            \<and> (\<forall>es1 url payload es2. es = es1 @ Send url payload # es2
                  \<longrightarrow> send_fails e (tick w + length (filter is_remote es1)) url
                  \<longrightarrow> es2 = [] \<and> r = Inl SendError
                      \<and> filter is_save es = [] \<and> store w' = store w)
            \<and> (r = Inl FetchError \<or> r = Inl SendError \<longrightarrow>
                  filter is_save es = [] \<and> store w' = store w))
         \<and> (r = Inl FetchError \<longrightarrow> is_fetch (last (trace w')))
         \<and> (r = Inl SendError \<longrightarrow> is_send (last (trace w')))
         \<and> (\<forall>url g st w0. live e (tick w0) (container_path g) = None
               \<longrightarrow> snd (check_container v e cfg url g st w0) = Inl FetchError)
         \<and> (\<forall>url gs1 g gs2 st w0 w1 st1 w2 x.
               containers_loop (check_container v e cfg url) gs1 st w0 = (w1, Inr st1)
               \<longrightarrow> check_container v e cfg url g st1 w1 = (w2, Inl x)
               \<longrightarrow> containers_loop (check_container v e cfg url) (gs1 @ g # gs2) st w0 = (w2, Inl x))"
proof -
  from getGtmInfo_frame[OF assms] obtain es where
    es: "trace w' = trace w @ es" "prefix (fetches es) (configured_paths cfg)"
      "\<not> error (validateConfig cfg) \<and> r = Inr () \<longrightarrow> fetches es = configured_paths cfg"
      "r = Inl FetchError \<or> r = Inl SendError \<longrightarrow> filter is_save es = [] \<and> store w' = store w"
    and last: "r = Inl FetchError \<longrightarrow> is_fetch (last (trace w'))"
      "r = Inl SendError \<longrightarrow> is_send (last (trace w'))"
    by blast
  from getGtmInfo_halts[OF assms] es(1)
  have h: "\<And>es1 ev es2 x. es = es1 @ ev # es2
        \<Longrightarrow> thrown e (tick w + length (filter is_remote es1)) ev = Some x
        \<Longrightarrow> es2 = [] \<and> r = Inl x"
    by (auto simp: halts_at_throw_def failure_Some)
  have f: "es2 = [] \<and> r = Inl FetchError \<and> filter is_save es = [] \<and> store w' = store w"
    if "es = es1 @ Live parent # es2"
      and "live e (tick w + length (filter is_remote es1)) parent = None"
    for es1 parent es2
    using h[OF that(1), of FetchError] that(2) es(4) by simp
  have s: "es2 = [] \<and> r = Inl SendError \<and> filter is_save es = [] \<and> store w' = store w"
    if "es = es1 @ Send url payload # es2"
      and "send_fails e (tick w + length (filter is_remote es1)) url"
    for es1 url payload es2
    using h[OF that(1), of SendError] that(2) es(4) by simp
  have p: "snd (check_container v e cfg url g st w0) = Inl FetchError"
    if "live e (tick w0) (container_path g) = None" for url g st w0
    using fetch_failure_fails_pass[OF that] by simp
  have a: "containers_loop (check_container v e cfg url) (gs1 @ g # gs2) st w0 = (w2, Inl x)"
    if "containers_loop (check_container v e cfg url) gs1 st w0 = (w1, Inr st1)"
      and "check_container v e cfg url g st1 w1 = (w2, Inl x)"
    for url gs1 g gs2 st w0 w1 st1 w2 x
    using that by (rule containers_loop_abort)
  from es f s have "\<exists>es. trace w' = trace w @ es \<and> prefix (fetches es) (configured_paths cfg)
            \<and> (\<not> error (validateConfig cfg) \<and> r = Inr () \<longrightarrow> fetches es = configured_paths cfg)
            \<and> (\<forall>es1 parent es2. es = es1 @ Live parent # es2
                  \<longrightarrow> live e (tick w + length (filter is_remote es1)) parent = None
                  \<longrightarrow> es2 = [] \<and> r = Inl FetchError
                      \<and> filter is_save es = [] \<and> store w' = store w)
            \<and> (\<forall>es1 url payload es2. es = es1 @ Send url payload # es2
                  \<longrightarrow> send_fails e (tick w + length (filter is_remote es1)) url
                  \<longrightarrow> es2 = [] \<and> r = Inl SendError
                      \<and> filter is_save es = [] \<and> store w' = store w)
            \<and> (r = Inl FetchError \<or> r = Inl SendError \<longrightarrow>
                  filter is_save es = [] \<and> store w' = store w)"
    by (intro exI[of _ es] conjI allI impI) blast+
  moreover from last have "r = Inl FetchError \<longrightarrow> is_fetch (last (trace w'))"
    and "r = Inl SendError \<longrightarrow> is_send (last (trace w'))" by simp_all
  moreover from p have "\<forall>url g st w0. live e (tick w0) (container_path g) = None
               \<longrightarrow> snd (check_container v e cfg url g st w0) = Inl FetchError"
    by simp
  moreover from a have "\<forall>url gs1 g gs2 st w0 w1 st1 w2 x.
               containers_loop (check_container v e cfg url) gs1 st w0 = (w1, Inr st1)
               \<longrightarrow> check_container v e cfg url g st1 w1 = (w2, Inl x)
               \<longrightarrow> containers_loop (check_container v e cfg url) (gs1 @ g # gs2) st w0 = (w2, Inl x)"
    by blast
  ultimately show ?thesis by (intro conjI)
qed

theorem run_order_and_abort_witness:
  "snd (getGtmInfo Index_js failing_env (example_config [''123_456'', ''123_789'', ''123_999''])
          (example_world (Doc (example_state (Some ''4''))))) = Inl FetchError
   \<and> fetches (trace (fst (getGtmInfo Index_js failing_env
          (example_config [''123_456'', ''123_789'', ''123_999''])
          (example_world (Doc (example_state (Some ''4'')))))))
       = [''accounts/123/containers/456'', ''accounts/123/containers/789'']
   \<and> filter is_save (trace (fst (getGtmInfo Index_js failing_env
          (example_config [''123_456'', ''123_789'', ''123_999''])
          (example_world (Doc (example_state (Some ''4''))))))) = []
   \<and> store (fst (getGtmInfo Index_js failing_env
          (example_config [''123_456'', ''123_789'', ''123_999''])
          (example_world (Doc (example_state (Some ''4'')))))) (''bucket'', ''state.json'')
       = Doc (example_state (Some ''4''))
   \<and> snd (getGtmInfo Part_000 rejecting_env (example_config [''123_456'', ''123_789''])
          (example_world (Doc (example_state (Some ''5''))))) = Inl SendError
   \<and> fetches (trace (fst (getGtmInfo Part_000 rejecting_env
          (example_config [''123_456'', ''123_789''])
          (example_world (Doc (example_state (Some ''5'')))))))
       = [''accounts/123/containers/456'']
   \<and> filter is_save (trace (fst (getGtmInfo Part_000 rejecting_env
          (example_config [''123_456'', ''123_789''])
          (example_world (Doc (example_state (Some ''5''))))))) = []
   \<and> store (fst (getGtmInfo Part_000 rejecting_env (example_config [''123_456'', ''123_789''])
          (example_world (Doc (example_state (Some ''5'')))))) (''bucket'', ''state.json'')
       = Doc (example_state (Some ''5''))"
proof -
  let ?W = "example_world (Doc (example_state (Some ''4'')))"
  let ?run = "getGtmInfo Index_js failing_env
          (example_config [''123_456'', ''123_789'', ''123_999'']) ?W"
  let ?p = "''accounts/123/containers/789''"
  have r: "?run = (fst ?run, snd ?run)" by simp
  have "trace (fst ?run) \<noteq> [] \<and> last (trace (fst ?run)) = Live ?p" by (simp add: run_defs)
  then have t: "trace (fst ?run) = butlast (trace (fst ?run)) @ Live ?p # []"
    by (metis append_butlast_last_id)
  have o: "live failing_env (tick ?W + length (filter is_remote (butlast (trace (fst ?run))))) ?p
            = None"
    by (simp add: failing_env_def)
  have f: "fetches (trace (fst ?run))
       = [''accounts/123/containers/456'', ''accounts/123/containers/789'']"
    by (simp add: run_defs)
  from run_order_and_abort[OF r, THEN conjunct1] obtain es where
    es: "trace (fst ?run) = trace ?W @ es"
    and fl: "\<forall>es1 parent es2. es = es1 @ Live parent # es2
                  \<longrightarrow> live failing_env (tick ?W + length (filter is_remote es1)) parent = None
                  \<longrightarrow> es2 = [] \<and> snd ?run = Inl FetchError
                      \<and> filter is_save es = [] \<and> store (fst ?run) = store ?W"
    by - (elim exE conjE, rule that, assumption+)
  from es have "es = trace (fst ?run)" by (simp add: example_world_def)
  with t have "es = butlast (trace (fst ?run)) @ Live ?p # []" by simp
  with fl o have "snd ?run = Inl FetchError \<and> filter is_save es = []
      \<and> store (fst ?run) = store ?W"
    by blast
  with \<open>es = trace (fst ?run)\<close> f
  have one: "snd ?run = Inl FetchError
     \<and> fetches (trace (fst ?run)) = [''accounts/123/containers/456'', ''accounts/123/containers/789'']
     \<and> filter is_save (trace (fst ?run)) = []
     \<and> store (fst ?run) (''bucket'', ''state.json'') = Doc (example_state (Some ''4''))"
    by (simp add: example_world_def)
  let ?V = "example_world (Doc (example_state (Some ''5'')))"
  let ?run2 = "getGtmInfo Part_000 rejecting_env (example_config [''123_456'', ''123_789'']) ?V"
  let ?u = "''https://hooks.slack.example/T1''"
  have r2: "?run2 = (fst ?run2, snd ?run2)" by simp
  have "trace (fst ?run2) \<noteq> [] \<and> (\<exists>m. last (trace (fst ?run2)) = Send ?u m)"
    by (simp add: run_defs)
  then obtain m where t2: "trace (fst ?run2) = butlast (trace (fst ?run2)) @ Send ?u m # []"
    by (metis append_butlast_last_id)
  have o2: "send_fails rejecting_env
              (tick ?V + length (filter is_remote (butlast (trace (fst ?run2))))) ?u"
    by (simp add: rejecting_env_def)
  have f2: "fetches (trace (fst ?run2)) = [''accounts/123/containers/456'']"
    by (simp add: run_defs)
  from run_order_and_abort[OF r2, THEN conjunct1] obtain fs where
    fs: "trace (fst ?run2) = trace ?V @ fs"
    and sl: "\<forall>es1 url payload es2. fs = es1 @ Send url payload # es2
                  \<longrightarrow> send_fails rejecting_env (tick ?V + length (filter is_remote es1)) url
                  \<longrightarrow> es2 = [] \<and> snd ?run2 = Inl SendError
                      \<and> filter is_save fs = [] \<and> store (fst ?run2) = store ?V"
    by - (elim exE conjE, rule that, assumption+)
  from fs have "fs = trace (fst ?run2)" by (simp add: example_world_def)
  with t2 have "fs = butlast (trace (fst ?run2)) @ Send ?u m # []" by simp
  with sl o2 have "snd ?run2 = Inl SendError \<and> filter is_save fs = []
      \<and> store (fst ?run2) = store ?V"
    by blast
  with \<open>fs = trace (fst ?run2)\<close> f2
  have two: "snd ?run2 = Inl SendError
     \<and> fetches (trace (fst ?run2)) = [''accounts/123/containers/456'']
     \<and> filter is_save (trace (fst ?run2)) = []
     \<and> store (fst ?run2) (''bucket'', ''state.json'') = Doc (example_state (Some ''5''))"
    by (simp add: example_world_def)
  from one two show ?thesis by simp
qed

section \<open>A second run\<close>

lemma same_ids_Some:
  assumes "\<forall>t p. map_option data_containerVersionId (live e t p)
                  = map_option data_containerVersionId (live e 0 p)"
    and "live e t p = Some data"
  shows "\<exists>d0. live e 0 p = Some d0
              \<and> data_containerVersionId d0 = data_containerVersionId data"
proof -
  from assms(1) have "map_option data_containerVersionId (live e t p)
                  = map_option data_containerVersionId (live e 0 p)" by blast
  with assms(2) show ?thesis by (cases "live e 0 p") auto
qed

lemma step_quiet_fetched:
  assumes "split_ids g = (a, c)"
    and "live e (tick w) (parent_path a c) = Some data"
    and "case stored_record st a c of None \<Rightarrow> True
         | Some r \<Rightarrow> containerVersionId r = Some (data_containerVersionId data)"
  shows "sends (trace (fst (check_container v e cfg url g st w))) = sends (trace w)"
proof (cases v)
  case Index_js
  with assms show ?thesis
    by (auto simp: index_defs split: option.splits prod.splits)
next
  case Part_000
  with assms show ?thesis
    by (auto simp: part_defs split: option.splits prod.splits)
qed

lemma step_quiet_failed:
  assumes "split_ids g = (a, c)"
    and "live e (tick w) (parent_path a c) = None"
  shows "sends (trace (fst (check_container v e cfg url g st w))) = sends (trace w)"
proof (cases v)
  case Index_js
  with assms show ?thesis by (simp add: index_defs)
next
  case Part_000
  with assms show ?thesis by (simp add: part_defs)
qed

lemma step_quiet:
  assumes "\<forall>t p. map_option data_containerVersionId (live e t p)
                  = map_option data_containerVersionId (live e 0 p)"
    and "up_to_date e st g"
  shows "sends (trace (fst (check_container v e cfg url g st w))) = sends (trace w)"
proof -
  obtain a c where ac: "split_ids g = (a, c)" by (cases "split_ids g")
  show ?thesis
  proof (cases "live e (tick w) (parent_path a c)")
    case None
    with ac show ?thesis by (rule step_quiet_failed)
  next
    case (Some data)
    from same_ids_Some[OF assms(1) Some] obtain d0 where
      d0: "live e 0 (parent_path a c) = Some d0"
          "data_containerVersionId d0 = data_containerVersionId data"
      by blast
    with assms(2) ac
    have "case stored_record st a c of None \<Rightarrow> True
          | Some r \<Rightarrow> containerVersionId r = Some (data_containerVersionId data)"
      by (auto simp: up_to_date_def split: option.splits)
    with ac Some show ?thesis by (rule step_quiet_fetched)
  qed
qed

lemma stored_record_update:
  "stored_record (st(a \<mapsto> (account_of st a)(c \<mapsto> r))) a' c' =
     (if a' = a \<and> c' = c then Some r else stored_record st a' c')"
  by (auto simp: stored_record_def account_of_def split: option.splits)

lemma step_result_index:
  assumes "check_container_index e cfg url g st w = (w', Inr st')"
    and "split_ids g = (a, c)"
  shows "\<exists>data r'. live e (tick w) (parent_path a c) = Some data
           \<and> st' = st(a \<mapsto> (account_of st a)(c \<mapsto> r'))
           \<and> containerVersionId r' = Some (data_containerVersionId data)"
  using assms
  by (auto simp: check_container_index_def Let_def account_of_def
      split: option.splits prod.splits if_splits sum.splits)

lemma step_result_part:
  assumes "check_container_part e cfg url g st w = (w', Inr st')"
    and "split_ids g = (a, c)"
  shows "\<exists>data r'. live e (tick w) (parent_path a c) = Some data
           \<and> st' = st(a \<mapsto> (account_of st a)(c \<mapsto> r'))
           \<and> containerVersionId r' = Some (data_containerVersionId data)"
  using assms
  by (auto simp: check_container_part_def checkPublishedVersionIdAgainstState_def
      addContainerToState_def read_entry_def assign_entry_def Let_def account_of_def truthy_def
      split: option.splits prod.splits if_splits sum.splits)
     (rule exI, rule conjI, rule refl, simp)+

lemma step_result:
  assumes "check_container v e cfg url g st w = (w', Inr st')"
    and "split_ids g = (a, c)"
  shows "\<exists>data r'. live e (tick w) (parent_path a c) = Some data
           \<and> st' = st(a \<mapsto> (account_of st a)(c \<mapsto> r'))
           \<and> containerVersionId r' = Some (data_containerVersionId data)"
proof (cases v)
  case Index_js
  with assms step_result_index[of e cfg url g st w w' st' a c] show ?thesis by simp
next
  case Part_000
  with assms step_result_part[of e cfg url g st w w' st' a c] show ?thesis by simp
qed

lemma step_keeps:
  assumes "\<forall>t p. map_option data_containerVersionId (live e t p)
                  = map_option data_containerVersionId (live e 0 p)"
    and "check_container v e cfg url g st w = (w', Inr st')"
    and "up_to_date e st g' \<or> g' = g"
  shows "up_to_date e st' g'"
proof -
  obtain a c where ac: "split_ids g = (a, c)" by (cases "split_ids g")
  obtain a' c' where ac': "split_ids g' = (a', c')" by (cases "split_ids g'")
  from step_result[OF assms(2) ac] obtain data r' where
    d: "live e (tick w) (parent_path a c) = Some data"
    and st': "st' = st(a \<mapsto> (account_of st a)(c \<mapsto> r'))"
    and r': "containerVersionId r' = Some (data_containerVersionId data)"
    by blast
  from same_ids_Some[OF assms(1) d] obtain d0 where
    d0: "live e 0 (parent_path a c) = Some d0"
        "data_containerVersionId d0 = data_containerVersionId data"
    by blast
  show ?thesis
  proof (cases "a' = a \<and> c' = c")
    case True
    with ac' d0 r' show ?thesis
      by (simp add: up_to_date_def st' stored_record_update)
  next
    case False
    with ac ac' have "g' \<noteq> g" by auto
    with assms(3) have "up_to_date e st g'" by simp
    with False ac' show ?thesis
      by (auto simp: up_to_date_def st' stored_record_update split: option.splits)
  qed
qed

lemma containers_loop_keeps:
  assumes "\<forall>t p. map_option data_containerVersionId (live e t p)
                  = map_option data_containerVersionId (live e 0 p)"
  shows "containers_loop (check_container v e cfg url) gs st w = (w', Inr st')
         \<Longrightarrow> up_to_date e st g' \<or> g' \<in> set gs \<Longrightarrow> up_to_date e st' g'"
proof (induction gs arbitrary: st w)
  case Nil
  then show ?case by simp
next
  case (Cons g gs)
  obtain w1 r where s: "check_container v e cfg url g st w = (w1, r)"
    by (cases "check_container v e cfg url g st w")
  show ?case
  proof (cases r)
    case (Inl x)
    with s Cons.prems show ?thesis by simp
  next
    case (Inr st1)
    with s Cons.prems have l: "containers_loop (check_container v e cfg url) gs st1 w1 = (w', Inr st')"
      by simp
    from Cons.prems(2) have "(up_to_date e st g' \<or> g' = g) \<or> g' \<in> set gs" by auto
    then show ?thesis
    proof
      assume "up_to_date e st g' \<or> g' = g"
      with step_keeps[OF assms s[unfolded Inr]] have "up_to_date e st1 g'" by simp
      with Cons.IH[OF l] show ?thesis by simp
    next
      assume "g' \<in> set gs"
      with Cons.IH[OF l] show ?thesis by simp
    qed
  qed
qed

lemma containers_loop_quiet:
  assumes "\<forall>t p. map_option data_containerVersionId (live e t p)
                  = map_option data_containerVersionId (live e 0 p)"
  shows "\<forall>g\<in>set gs. up_to_date e st g
         \<Longrightarrow> sends (trace (fst (containers_loop (check_container v e cfg url) gs st w)))
             = sends (trace w)"
proof (induction gs arbitrary: st w)
  case Nil
  then show ?case by simp
next
  case (Cons g gs)
  obtain w1 r where s: "check_container v e cfg url g st w = (w1, r)"
    by (cases "check_container v e cfg url g st w")
  from Cons.prems have "up_to_date e st g" by simp
  from step_quiet[OF assms this, of v cfg url w] s
  have q: "sends (trace w1) = sends (trace w)" by simp
  show ?case
  proof (cases r)
    case (Inl x)
    with s q show ?thesis by simp
  next
    case (Inr st1)
    have "\<forall>g'\<in>set gs. up_to_date e st1 g'"
      using step_keeps[OF assms s[unfolded Inr]] Cons.prems by simp
    from Cons.IH[OF this, of w1] s Inr q show ?thesis by simp
  qed
qed

lemma target_containers_Some: "gtmContainers s = Some gs \<Longrightarrow> target_containers s = gs"
  by (simp add: target_containers_def)

lemma slackOutput_loop_keeps:
  assumes "\<forall>t p. map_option data_containerVersionId (live e t p)
                  = map_option data_containerVersionId (live e 0 p)"
  shows "slackOutput_loop (check_container v e cfg) cfg targets st w = (w', Inr st')
         \<Longrightarrow> up_to_date e st g' \<or> g' \<in> set (concat (map target_containers targets))
         \<Longrightarrow> up_to_date e st' g'"
proof (induction targets arbitrary: st w)
  case Nil
  then show ?case by simp
next
  case (Cons s targets)
  from Cons.prems(1) obtain url gs where url: "slackWebhookUrl s = Some url"
    and gs: "gtmContainers s = Some gs"
    by (auto simp: Let_def split: option.splits)
  let ?w1 = "log_msg cfg (''Starting operation for webhook URL '' @ url) w"
  obtain w2 r where c: "containers_loop (check_container v e cfg url) gs st ?w1 = (w2, r)"
    by (cases "containers_loop (check_container v e cfg url) gs st ?w1")
  show ?case
  proof (cases r)
    case (Inl x)
    with url gs c Cons.prems(1) show ?thesis by simp
  next
    case (Inr st1)
    with url gs c Cons.prems(1)
    have l: "slackOutput_loop (check_container v e cfg) cfg targets st1 w2 = (w', Inr st')"
      by simp
    from Cons.prems(2) gs
    have "(up_to_date e st g' \<or> g' \<in> set gs) \<or> g' \<in> set (concat (map target_containers targets))"
      by (auto simp: target_containers_Some)
    then show ?thesis
    proof
      assume "up_to_date e st g' \<or> g' \<in> set gs"
      with containers_loop_keeps[OF assms c[unfolded Inr]] have "up_to_date e st1 g'" by simp
      with Cons.IH[OF l] show ?thesis by simp
    next
      assume "g' \<in> set (concat (map target_containers targets))"
      with Cons.IH[OF l] show ?thesis by simp
    qed
  qed
qed

lemma slackOutput_loop_quiet:
  assumes "\<forall>t p. map_option data_containerVersionId (live e t p)
                  = map_option data_containerVersionId (live e 0 p)"
  shows "\<forall>g\<in>set (concat (map target_containers targets)). up_to_date e st g
         \<Longrightarrow> sends (trace (fst (slackOutput_loop (check_container v e cfg) cfg targets st w)))
             = sends (trace w)"
proof (induction targets arbitrary: st w)
  case Nil
  then show ?case by simp
next
  case (Cons s targets)
  show ?case
  proof (cases "slackWebhookUrl s")
    case None
    then show ?thesis by simp
  next
    case url: (Some url)
    show ?thesis
    proof (cases "gtmContainers s")
      case None
      with url show ?thesis by simp
    next
      case (Some gs)
      let ?w1 = "log_msg cfg (''Starting operation for webhook URL '' @ url) w"
      obtain w2 r where c: "containers_loop (check_container v e cfg url) gs st ?w1 = (w2, r)"
        by (cases "containers_loop (check_container v e cfg url) gs st ?w1")
      from Cons.prems Some have here: "\<forall>g\<in>set gs. up_to_date e st g"
        and later: "\<forall>g\<in>set (concat (map target_containers targets)). up_to_date e st g"
        by (auto simp: target_containers_Some)
      from containers_loop_quiet[OF assms here, of v cfg url ?w1] c
      have q: "sends (trace w2) = sends (trace w)" by simp
      show ?thesis
      proof (cases r)
        case (Inl x)
        with url Some c q show ?thesis by simp
      next
        case (Inr st1)
        have "\<forall>g\<in>set (concat (map target_containers targets)). up_to_date e st1 g"
          using containers_loop_keeps[OF assms c[unfolded Inr]] later by blast
        from Cons.IH[OF this, of w2] url Some c Inr q show ?thesis by simp
      qed
    qed
  qed
qed

lemma up_to_date_empty: "up_to_date e Map.empty g"
  by (simp add: up_to_date_def stored_record_def split: prod.splits option.splits)

lemma run_loaded_writes:
  assumes "\<forall>t p. map_option data_containerVersionId (live e t p)
                  = map_option data_containerVersionId (live e 0 p)"
    and "run_loaded (check_container v e cfg) cfg e b f st w = (w', Inr ())"
  shows "\<exists>st'. store w' (b, f) = Doc st'
           \<and> (\<forall>g\<in>set (configured_containers cfg). up_to_date e st' g)"
proof -
  from assms(2) obtain targets w2 st' where t: "slackOutput cfg = Present targets"
    and l: "slackOutput_loop (check_container v e cfg) cfg targets st (remote_call GetClient w)
              = (w2, Inr st')"
    and w': "store w' (b, f) = Doc st'"
    by (auto simp: run_loaded_def Let_def split: if_splits option.splits property.splits prod.splits sum.splits)
  from slackOutput_loop_keeps[OF assms(1) l] t
  have "\<forall>g\<in>set (configured_containers cfg). up_to_date e st' g"
    by (simp add: configured_containers_def)
  with w' show ?thesis by blast
qed

lemma run_loaded_quiet:
  assumes "\<forall>t p. map_option data_containerVersionId (live e t p)
                  = map_option data_containerVersionId (live e 0 p)"
    and "\<forall>g\<in>set (configured_containers cfg). up_to_date e st g"
  shows "sends (trace (fst (run_loaded (check_container v e cfg) cfg e b f st w)))
           = sends (trace w)"
proof (cases "slackOutput cfg")
  case NoProperty
  then show ?thesis by (simp add: run_loaded_def Let_def)
next
  case NullValue
  then show ?thesis by (simp add: run_loaded_def Let_def)
next
  case (Present targets)
  note Some = Present
  let ?w1 = "remote_call GetClient w"
  from assms(2) Some
  have "\<forall>g\<in>set (concat (map target_containers targets)). up_to_date e st g"
    by (simp add: configured_containers_def)
  from slackOutput_loop_quiet[OF assms(1) this, of v cfg ?w1]
  have "sends (trace (fst (slackOutput_loop (check_container v e cfg) cfg targets st ?w1)))
          = sends (trace w)"
    by simp
  with Some show ?thesis
    by (auto simp: run_loaded_def Let_def split: prod.splits sum.splits)
qed

lemma load_state_cases:
  "load_state e b f w = (w', st) \<Longrightarrow>
     sends (trace w') = sends (trace w) \<and> (st = Map.empty \<or> store w (b, f) = Doc st)"
  by (auto simp: load_state_def Let_def split: if_splits blob.splits)

text \<open>
  Claim C9.  Let the remote side return the same version id for a container at all
  times (failing at all times where it fails), and let a run of either variant return
  normally.  Then the run that follows it at once, from the
  world the first one left, sends no notification.  (This holds whether the second run
  loads the state the first one wrote or, its download failing, starts from the empty
  state.)
\<close>

theorem second_run_is_silent:
  assumes "\<forall>t p. map_option data_containerVersionId (live e t p)
                  = map_option data_containerVersionId (live e 0 p)"
    and "getGtmInfo v e cfg w = (w1, Inr ())"
  shows "sends (trace (fst (getGtmInfo v e cfg w1))) = sends (trace w1)"
proof (cases "error (validateConfig cfg)")
  case True
  then show ?thesis by (simp add: getGtmInfo_def getGtmInfo_with_def Let_def)
next
  case valid: False
  with assms(2) obtain g b f where g: "gcs cfg = Present g" "bucketName g = Some b"
    "fileName g = Some f"
    by (auto simp: getGtmInfo_def getGtmInfo_with_def Let_def split: option.splits property.splits)
  let ?w2 = "console_log ''Validation successful.'' (console_log ''Validating config.json'' w)"
  obtain w3 st where ld: "load_state e b f ?w2 = (w3, st)" by (cases "load_state e b f ?w2")
  from valid g ld assms(2)
  have "run_loaded (check_container v e cfg) cfg e b f st w3 = (w1, Inr ())"
    by (simp add: getGtmInfo_def getGtmInfo_with_def Let_def)
  from run_loaded_writes[OF assms(1) this] obtain st1 where
    st1: "store w1 (b, f) = Doc st1" "\<forall>g\<in>set (configured_containers cfg). up_to_date e st1 g"
    by blast
  let ?v2 = "console_log ''Validation successful.'' (console_log ''Validating config.json'' w1)"
  obtain v3 st2 where ld2: "load_state e b f ?v2 = (v3, st2)" by (cases "load_state e b f ?v2")
  from load_state_cases[OF ld2] st1(1)
  have s3: "sends (trace v3) = sends (trace w1)" and "st2 = Map.empty \<or> st2 = st1"
    by auto
  with st1(2) have "\<forall>g\<in>set (configured_containers cfg). up_to_date e st2 g"
    by (auto simp: up_to_date_empty)
  from run_loaded_quiet[OF assms(1) this, of v b f v3] s3
  have "sends (trace (fst (run_loaded (check_container v e cfg) cfg e b f st2 v3)))
          = sends (trace w1)"
    by simp
  with valid g ld2 show ?thesis
    by (simp add: getGtmInfo_def getGtmInfo_with_def Let_def)
qed

theorem second_run_is_silent_witness:
  "map fst (sends (trace (fst (getGtmInfo Index_js (example_env ''6'') (example_config [''123_456''])
      (example_world (Doc (example_state (Some ''5''))))))))
     = [''https://hooks.slack.example/T1'']
   \<and> sends (trace (fst (getGtmInfo Index_js (example_env ''6'') (example_config [''123_456''])
        (fst (getGtmInfo Index_js (example_env ''6'') (example_config [''123_456''])
           (example_world (Doc (example_state (Some ''5'')))))))))
     = sends (trace (fst (getGtmInfo Index_js (example_env ''6'') (example_config [''123_456''])
           (example_world (Doc (example_state (Some ''5'')))))))"
proof -
  let ?run = "getGtmInfo Index_js (example_env ''6'') (example_config [''123_456''])
      (example_world (Doc (example_state (Some ''5''))))"
  have steady: "\<forall>t p. map_option data_containerVersionId (live (example_env ''6'') t p)
                  = map_option data_containerVersionId (live (example_env ''6'') 0 p)"
    by (simp add: example_env_def)
  have "snd ?run = Inr ()" by (simp add: run_defs)
  then have r: "?run = (fst ?run, Inr ())" by (simp add: prod_eq_iff)
  have one: "map fst (sends (trace (fst ?run))) = [''https://hooks.slack.example/T1'']"
    by (simp add: run_defs)
  from second_run_is_silent[OF steady r] one show ?thesis by simp
qed

section \<open>Runs that start from the empty state\<close>

lemma step_first_quiet:
  assumes "no_record st (split_ids g)"
  shows "sends (trace (fst (check_container v e cfg url g st w))) = sends (trace w)"
proof -
  obtain a c where ac: "split_ids g = (a, c)" by (cases "split_ids g")
  show ?thesis
  proof (cases "live e (tick w) (parent_path a c)")
    case None
    with ac show ?thesis by (rule step_quiet_failed)
  next
    case (Some data)
    from assms ac
    have "case stored_record st a c of None \<Rightarrow> True
          | Some r \<Rightarrow> containerVersionId r = Some (data_containerVersionId data)"
      by (simp add: no_record_def)
    with ac Some show ?thesis by (rule step_quiet_fetched)
  qed
qed

lemma step_first_keeps:
  assumes "check_container v e cfg url g st w = (w', Inr st')"
    and "k \<noteq> split_ids g" and "no_record st k"
  shows "no_record st' k"
proof -
  obtain a c where ac: "split_ids g = (a, c)" by (cases "split_ids g")
  from step_result[OF assms(1) ac] obtain r' where
    "st' = st(a \<mapsto> (account_of st a)(c \<mapsto> r'))" by blast
  with assms(2,3) ac show ?thesis
    by (cases k) (auto simp: no_record_def stored_record_update)
qed

lemma containers_loop_first:
  "distinct (map split_ids gs) \<Longrightarrow> \<forall>k\<in>set (map split_ids gs) \<union> K. no_record st k
   \<Longrightarrow> set (map split_ids gs) \<inter> K = {}
   \<Longrightarrow> sends (trace (fst (containers_loop (check_container v e cfg url) gs st w)))
         = sends (trace w)
       \<and> (\<forall>st'. snd (containers_loop (check_container v e cfg url) gs st w) = Inr st'
             \<longrightarrow> (\<forall>k\<in>K. no_record st' k))"
proof (induction gs arbitrary: st w)
  case Nil
  then show ?case by simp
next
  case (Cons g gs)
  obtain w1 r where s: "check_container v e cfg url g st w = (w1, r)"
    by (cases "check_container v e cfg url g st w")
  from Cons.prems(2) have "no_record st (split_ids g)" by simp
  from step_first_quiet[OF this, of v e cfg url w] s
  have q: "sends (trace w1) = sends (trace w)" by simp
  show ?case
  proof (cases r)
    case (Inl x)
    with s q show ?thesis by simp
  next
    case (Inr st1)
    have nr: "\<forall>k\<in>set (map split_ids gs) \<union> K. no_record st1 k"
    proof
      fix k assume k: "k \<in> set (map split_ids gs) \<union> K"
      with Cons.prems(1,3) have "k \<noteq> split_ids g" by auto
      moreover from k Cons.prems(2) have "no_record st k" by simp
      ultimately show "no_record st1 k"
        using step_first_keeps[OF s[unfolded Inr]] by blast
    qed
    from Cons.prems(1) have d: "distinct (map split_ids gs)" by simp
    from Cons.prems(3) have dj: "set (map split_ids gs) \<inter> K = {}" by auto
    from d nr dj have "sends (trace (fst (containers_loop (check_container v e cfg url) gs st1 w1)))
         = sends (trace w1)
       \<and> (\<forall>st'. snd (containers_loop (check_container v e cfg url) gs st1 w1) = Inr st'
             \<longrightarrow> (\<forall>k\<in>K. no_record st' k))"
      by (rule Cons.IH)
    with s Inr q show ?thesis by simp
  qed
qed

lemma slackOutput_loop_first:
  "distinct (map split_ids (concat (map target_containers targets)))
   \<Longrightarrow> \<forall>k\<in>set (map split_ids (concat (map target_containers targets))). no_record st k
   \<Longrightarrow> sends (trace (fst (slackOutput_loop (check_container v e cfg) cfg targets st w)))
         = sends (trace w)"
proof (induction targets arbitrary: st w)
  case Nil
  then show ?case by simp
next
  case (Cons s targets)
  show ?case
  proof (cases "slackWebhookUrl s")
    case None
    then show ?thesis by simp
  next
    case url: (Some url)
    show ?thesis
    proof (cases "gtmContainers s")
      case None
      with url show ?thesis by simp
    next
      case (Some gs)
      let ?w1 = "log_msg cfg (''Starting operation for webhook URL '' @ url) w"
      let ?K = "set (map split_ids (concat (map target_containers targets)))"
      obtain w2 r where c: "containers_loop (check_container v e cfg url) gs st ?w1 = (w2, r)"
        by (cases "containers_loop (check_container v e cfg url) gs st ?w1")
      from Cons.prems Some have d1: "distinct (map split_ids gs)"
        and d2: "distinct (map split_ids (concat (map target_containers targets)))"
        and dj: "set (map split_ids gs) \<inter> ?K = {}"
        and nr: "\<forall>k\<in>set (map split_ids gs) \<union> ?K. no_record st k"
        by (auto simp: target_containers_Some)
      from containers_loop_first[OF d1 nr dj, of v e cfg url ?w1] c
      have q: "sends (trace w2) = sends (trace w)"
        and k: "\<forall>st'. r = Inr st' \<longrightarrow> (\<forall>k\<in>?K. no_record st' k)"
        by simp_all
      show ?thesis
      proof (cases r)
        case (Inl x)
        with url Some c q show ?thesis by simp
      next
        case (Inr st1)
        with k have "\<forall>k\<in>?K. no_record st1 k" by simp
        from Cons.IH[OF d2 this, of w2] url Some c Inr q show ?thesis by simp
      qed
    qed
  qed
qed

lemma run_loaded_first:
  assumes "distinct (map split_ids (configured_containers cfg))"
  shows "sends (trace (fst (run_loaded (check_container v e cfg) cfg e b f Map.empty w)))
           = sends (trace w)"
proof (cases "slackOutput cfg")
  case NoProperty
  then show ?thesis by (simp add: run_loaded_def Let_def)
next
  case NullValue
  then show ?thesis by (simp add: run_loaded_def Let_def)
next
  case (Present targets)
  note Some = Present
  let ?w1 = "remote_call GetClient w"
  from assms Some
  have d: "distinct (map split_ids (concat (map target_containers targets)))"
    by (simp add: configured_containers_def)
  have "\<forall>k\<in>set (map split_ids (concat (map target_containers targets))). no_record Map.empty k"
    by (auto simp: no_record_def stored_record_def)
  from slackOutput_loop_first[OF d this, of v e cfg ?w1]
  have "sends (trace (fst (slackOutput_loop (check_container v e cfg) cfg targets Map.empty ?w1)))
          = sends (trace w)"
    by simp
  with Some show ?thesis
    by (auto simp: run_loaded_def Let_def split: prod.splits sum.splits)
qed

lemma sends_split: "es = es1 @ Send url payload # es2 \<Longrightarrow> sends es \<noteq> []"
  by simp

lemma only_repeats_quiet: "sends es = [] \<Longrightarrow> only_repeats paths es"
  by (auto simp: only_repeats_def)

lemma fetches_butlast_send: "es \<noteq> [] \<Longrightarrow> is_send (last es) \<Longrightarrow> fetches (butlast es) = fetches es"
proof -
  assume "es \<noteq> []" and s: "is_send (last es)"
  then have "es = butlast es @ [last es]" by simp
  then have "fetches es = fetches (butlast es) @ fetches [last es]"
    by (metis fetches_append)
  with s show ?thesis by (cases "last es") simp_all
qed

lemma only_repeats_last:
  assumes "fetches es = [p]" and "p \<in> set paths" and "es \<noteq> []" and "is_send (last es)"
    and "sends (butlast es) = []"
  shows "only_repeats paths es"
  unfolding only_repeats_def
proof (intro allI impI)
  fix es1 url payload es2
  assume d: "es = es1 @ Send url payload # es2"
  have "es2 = []"
  proof (rule ccontr)
    assume "es2 \<noteq> []"
    with d have "butlast es = es1 @ Send url payload # butlast es2"
      by (simp add: butlast_append)
    with assms(5) show False by simp
  qed
  with d have "butlast es = es1" by simp
  with fetches_butlast_send[OF assms(3,4)] assms(1) have "fetches es1 = [p]" by simp
  with assms(2) show "fetches es1 \<noteq> [] \<and> last (fetches es1) \<in> set paths \<union> set (butlast (fetches es1))"
    by simp
qed

lemma only_repeats_append:
  assumes "only_repeats paths es" and "only_repeats (paths @ fetches es) fs"
  shows "only_repeats paths (es @ fs)"
  unfolding only_repeats_def
proof (intro allI impI)
  fix es1 url payload es2
  assume d: "es @ fs = es1 @ Send url payload # es2"
  then obtain us where "es = es1 @ us \<and> us @ fs = Send url payload # es2
      \<or> es @ us = es1 \<and> fs = us @ Send url payload # es2"
    by (auto simp: append_eq_append_conv2)
  then show "fetches es1 \<noteq> [] \<and> last (fetches es1) \<in> set paths \<union> set (butlast (fetches es1))"
  proof
    assume a: "es = es1 @ us \<and> us @ fs = Send url payload # es2"
    show ?thesis
    proof (cases us)
      case Nil
      with a have f: "fs = [] @ Send url payload # es2" and e: "es1 = es" by simp_all
      from assms(2) f have "fetches [] \<noteq> []" unfolding only_repeats_def by blast
      then show ?thesis by simp
    next
      case (Cons u us')
      with a have "es = es1 @ Send url payload # us'" by simp
      with assms(1) show ?thesis unfolding only_repeats_def by blast
    qed
  next
    assume a: "es @ us = es1 \<and> fs = us @ Send url payload # es2"
    with assms(2) have ne: "fetches us \<noteq> []"
      and l: "last (fetches us) \<in> set (paths @ fetches es) \<union> set (butlast (fetches us))"
      unfolding only_repeats_def by blast+
    from a have f: "fetches es1 = fetches es @ fetches us" by auto
    with ne have "last (fetches es1) = last (fetches us)"
      and "butlast (fetches es1) = fetches es @ butlast (fetches us)"
      by (simp_all add: butlast_append)
    with l ne f show ?thesis by auto
  qed
qed

lemma step_shape_index:
  assumes "check_container_index e cfg url g st w = (w', r)" and "split_ids g = (a, c)"
  shows "\<exists>es. trace w' = trace w @ es \<and> fetches es = [parent_path a c]
           \<and> (sends es = [] \<or> stored_record st a c \<noteq> None \<and> es \<noteq> [] \<and> is_send (last es)
                 \<and> sends (butlast es) = [])"
  using assms
  by (auto simp: check_container_index_def sendSlackMessage_index_def sendSlackMessage_with_def
      Let_def stored_record_def log_msg_def console_log_def remote_call_def butlast_append
      split: option.splits prod.splits if_splits)

lemma step_shape_part:
  assumes "check_container_part e cfg url g st w = (w', r)" and "split_ids g = (a, c)"
  shows "\<exists>es. trace w' = trace w @ es \<and> fetches es = [parent_path a c]
           \<and> (sends es = [] \<or> stored_record st a c \<noteq> None \<and> es \<noteq> [] \<and> is_send (last es)
                 \<and> sends (butlast es) = [])"
  using assms
  by (auto simp: check_container_part_def checkPublishedVersionIdAgainstState_def
      sendSlackMessage_part_def sendSlackMessage_with_def addContainerToState_def read_entry_def
      assign_entry_def truthy_def
      Let_def stored_record_def log_msg_def console_log_def remote_call_def butlast_append
      split: option.splits prod.splits if_splits sum.splits)


lemma step_shape:
  assumes "check_container v e cfg url g st w = (w', r)" and "split_ids g = (a, c)"
  shows "\<exists>es. trace w' = trace w @ es \<and> fetches es = [parent_path a c]
           \<and> (sends es = [] \<or> stored_record st a c \<noteq> None \<and> es \<noteq> [] \<and> is_send (last es)
                 \<and> sends (butlast es) = [])"
proof (cases v)
  case Index_js
  with assms step_shape_index[of e cfg url g st w w' r a c] show ?thesis by simp
next
  case Part_000
  with assms step_shape_part[of e cfg url g st w w' r a c] show ?thesis by simp
qed

lemma step_checked_index:
  assumes "check_container_index e cfg url g st w = (w', Inr st')"
    and "split_ids g = (a, c)"
  shows "\<exists>data r'. live e (tick w) (parent_path a c) = Some data
           \<and> st' = st(a \<mapsto> (account_of st a)(c \<mapsto> r'))
           \<and> containerVersionId r' = Some (data_containerVersionId data)
           \<and> lastChecked r' = Some (clock e (tick w'))"
  using assms
  by (auto simp: check_container_index_def Let_def account_of_def
      split: option.splits prod.splits if_splits sum.splits)

lemma step_checked_part:
  assumes "check_container_part e cfg url g st w = (w', Inr st')"
    and "split_ids g = (a, c)"
  shows "\<exists>data r'. live e (tick w) (parent_path a c) = Some data
           \<and> st' = st(a \<mapsto> (account_of st a)(c \<mapsto> r'))
           \<and> containerVersionId r' = Some (data_containerVersionId data)
           \<and> lastChecked r' = Some (clock e (tick w'))"
  using assms
  by (auto simp: check_container_part_def checkPublishedVersionIdAgainstState_def
      addContainerToState_def read_entry_def assign_entry_def Let_def account_of_def truthy_def
      split: option.splits prod.splits if_splits sum.splits)
     (rule exI, rule conjI, rule refl, simp)+

lemma step_checked:
  assumes "check_container v e cfg url g st w = (w', Inr st')"
    and "split_ids g = (a, c)"
  shows "\<exists>data r'. live e (tick w) (parent_path a c) = Some data
           \<and> st' = st(a \<mapsto> (account_of st a)(c \<mapsto> r'))
           \<and> containerVersionId r' = Some (data_containerVersionId data)
           \<and> lastChecked r' = Some (clock e (tick w'))"
proof (cases v)
  case Index_js
  with assms step_checked_index[of e cfg url g st w w' st' a c] show ?thesis by simp
next
  case Part_000
  with assms step_checked_part[of e cfg url g st w w' st' a c] show ?thesis by simp
qed

lemma step_observed:
  assumes "check_container v e cfg url g st w = (w', Inr st')"
    and "observed e st g' \<or> g' = g"
  shows "observed e st' g'"
proof -
  obtain a c where ac: "split_ids g = (a, c)" by (cases "split_ids g")
  obtain a' c' where ac': "split_ids g' = (a', c')" by (cases "split_ids g'")
  from step_checked[OF assms(1) ac] obtain data r' where
    d: "live e (tick w) (parent_path a c) = Some data"
    and st': "st' = st(a \<mapsto> (account_of st a)(c \<mapsto> r'))"
    and r': "containerVersionId r' = Some (data_containerVersionId data)"
       "lastChecked r' = Some (clock e (tick w'))"
    by blast
  show ?thesis
  proof (cases "a' = a \<and> c' = c")
    case True
    with ac' d r' show ?thesis
      by (auto simp: observed_def st' stored_record_update)
  next
    case False
    with ac ac' have "g' \<noteq> g" by auto
    with assms(2) have o: "observed e st g'" by simp
    from False have "stored_record st' a' c' = stored_record st a' c'"
      by (auto simp: st' stored_record_update)
    with o ac' show ?thesis by (simp add: observed_def)
  qed
qed

lemma step_known:
  assumes "check_container v e cfg url g st w = (w', Inr st')"
    and "split_ids g = (a, c)" and "known st paths"
  shows "known st' (paths @ [parent_path a c])"
proof -
  from step_result[OF assms(1,2)] obtain r' where
    "st' = st(a \<mapsto> (account_of st a)(c \<mapsto> r'))" by blast
  with assms(3) show ?thesis
    by (auto simp: known_def stored_record_update)
qed

lemma step_repeats:
  assumes "known st paths" and "check_container v e cfg url g st w = (w', r)"
  shows "\<exists>es. trace w' = trace w @ es \<and> only_repeats paths es
           \<and> (\<forall>st'. r = Inr st' \<longrightarrow> known st' (paths @ fetches es))"
proof -
  obtain a c where ac: "split_ids g = (a, c)" by (cases "split_ids g")
  from step_shape[OF assms(2) ac] obtain es where es: "trace w' = trace w @ es"
    "fetches es = [parent_path a c]"
    "sends es = [] \<or> stored_record st a c \<noteq> None \<and> es \<noteq> [] \<and> is_send (last es)
                 \<and> sends (butlast es) = []"
    by blast
  from es(3) have "only_repeats paths es"
  proof
    assume "sends es = []"
    then show ?thesis by (rule only_repeats_quiet)
  next
    assume s: "stored_record st a c \<noteq> None \<and> es \<noteq> [] \<and> is_send (last es)
                 \<and> sends (butlast es) = []"
    with assms(1) have "parent_path a c \<in> set paths" by (simp add: known_def)
    with es(2) s show ?thesis by (auto intro: only_repeats_last)
  qed
  moreover have "known st' (paths @ fetches es)" if "r = Inr st'" for st'
    using step_known[OF assms(2)[unfolded that] ac assms(1)] es(2) by simp
  ultimately show ?thesis using es(1) by blast
qed

lemma containers_loop_repeats:
  "known st paths \<Longrightarrow> containers_loop (check_container v e cfg url) gs st w = (w', r)
   \<Longrightarrow> \<exists>es. trace w' = trace w @ es \<and> only_repeats paths es
           \<and> (\<forall>st'. r = Inr st' \<longrightarrow> known st' (paths @ fetches es))"
proof (induction gs arbitrary: st w paths)
  case Nil
  then show ?case by (auto simp: only_repeats_quiet)
next
  case (Cons g gs)
  obtain w1 r1 where s: "check_container v e cfg url g st w = (w1, r1)"
    by (cases "check_container v e cfg url g st w")
  from step_repeats[OF Cons.prems(1) s] obtain es where es: "trace w1 = trace w @ es"
    "only_repeats paths es" "\<forall>st'. r1 = Inr st' \<longrightarrow> known st' (paths @ fetches es)"
    by blast
  show ?case
  proof (cases r1)
    case (Inl x)
    with s Cons.prems(2) have "w' = w1" "r = Inl x" by simp_all
    with es show ?thesis by auto
  next
    case (Inr st1)
    with es(3) have k: "known st1 (paths @ fetches es)" by simp
    from Inr s Cons.prems(2)
    have "containers_loop (check_container v e cfg url) gs st1 w1 = (w', r)" by simp
    from Cons.IH[OF k this] obtain fs where fs: "trace w' = trace w1 @ fs"
      "only_repeats (paths @ fetches es) fs"
      "\<forall>st'. r = Inr st' \<longrightarrow> known st' ((paths @ fetches es) @ fetches fs)"
      by blast
    from es(2) fs(2) have "only_repeats paths (es @ fs)" by (rule only_repeats_append)
    with es(1) fs(1,3) show ?thesis
      by (intro exI[of _ "es @ fs"]) simp
  qed
qed

lemma repeats_after_log:
  assumes "\<exists>es. trace w' = trace (log_msg cfg m w) @ es \<and> only_repeats paths es
           \<and> (\<forall>st'. r = Inr st' \<longrightarrow> known st' (paths @ fetches es))"
  shows "\<exists>es. trace w' = trace w @ es \<and> only_repeats paths es
           \<and> (\<forall>st'. r = Inr st' \<longrightarrow> known st' (paths @ fetches es))"
proof -
  from assms obtain es where es: "trace w' = trace (log_msg cfg m w) @ es"
    "only_repeats paths es" "\<forall>st'. r = Inr st' \<longrightarrow> known st' (paths @ fetches es)"
    by blast
  let ?l = "if verboseLogging cfg then [ConsoleLog m] else []"
  have t: "trace (log_msg cfg m w) = trace w @ ?l" by simp
  have "only_repeats paths ?l" by (rule only_repeats_quiet) simp
  moreover have f: "fetches ?l = []" by simp
  ultimately have "only_repeats paths (?l @ es)" using es(2)
    by (intro only_repeats_append) simp_all
  with es(1,3) t f show ?thesis
    by (intro exI[of _ "?l @ es"]) (simp del: log_msg_sel)
qed

lemma slackOutput_loop_repeats:
  "known st paths \<Longrightarrow> slackOutput_loop (check_container v e cfg) cfg targets st w = (w', r)
   \<Longrightarrow> \<exists>es. trace w' = trace w @ es \<and> only_repeats paths es
           \<and> (\<forall>st'. r = Inr st' \<longrightarrow> known st' (paths @ fetches es))"
proof (induction targets arbitrary: st w paths)
  case Nil
  then show ?case by (auto simp: only_repeats_quiet)
next
  case (Cons s targets)
  show ?case
  proof (cases "slackWebhookUrl s")
    case None
    with Cons.prems(2) show ?thesis
      by (intro exI[of _ "if verboseLogging cfg
            then [ConsoleLog ''Starting operation for webhook URL undefined''] else []"])
         (auto simp: only_repeats_quiet)
  next
    case url: (Some url)
    let ?w1 = "log_msg cfg (''Starting operation for webhook URL '' @ url) w"
    show ?thesis
    proof (cases "gtmContainers s")
      case None
      with url Cons.prems(2) show ?thesis
        by (intro exI[of _ "if verboseLogging cfg
              then [ConsoleLog (''Starting operation for webhook URL '' @ url)] else []"])
           (auto simp: only_repeats_quiet)
    next
      case (Some gs)
      obtain w2 r2 where c: "containers_loop (check_container v e cfg url) gs st ?w1 = (w2, r2)"
        by (cases "containers_loop (check_container v e cfg url) gs st ?w1")
      from containers_loop_repeats[OF Cons.prems(1) c] obtain es where es:
        "trace w2 = trace ?w1 @ es" "only_repeats paths es"
        "\<forall>st'. r2 = Inr st' \<longrightarrow> known st' (paths @ fetches es)"
        by blast
      show ?thesis
      proof (cases r2)
        case (Inl x)
        with url Some c Cons.prems(2) have "w' = w2" "r = Inl x" by simp_all
        with es have "\<exists>es. trace w' = trace ?w1 @ es \<and> only_repeats paths es
           \<and> (\<forall>st'. r = Inr st' \<longrightarrow> known st' (paths @ fetches es))"
          by auto
        then show ?thesis by (rule repeats_after_log)
      next
        case (Inr st1)
        with es(3) have k: "known st1 (paths @ fetches es)" by simp
        from Inr url Some c Cons.prems(2)
        have "slackOutput_loop (check_container v e cfg) cfg targets st1 w2 = (w', r)" by simp
        from Cons.IH[OF k this] obtain fs where fs: "trace w' = trace w2 @ fs"
          "only_repeats (paths @ fetches es) fs"
          "\<forall>st'. r = Inr st' \<longrightarrow> known st' ((paths @ fetches es) @ fetches fs)"
          by blast
        from es(2) fs(2) have "only_repeats paths (es @ fs)" by (rule only_repeats_append)
        with es(1) fs(1,3) have "\<exists>es. trace w' = trace ?w1 @ es \<and> only_repeats paths es
           \<and> (\<forall>st'. r = Inr st' \<longrightarrow> known st' (paths @ fetches es))"
          by (intro exI[of _ "es @ fs"]) simp
        then show ?thesis by (rule repeats_after_log)
      qed
    qed
  qed
qed

lemma containers_loop_observed:
  "containers_loop (check_container v e cfg url) gs st w = (w', Inr st')
   \<Longrightarrow> observed e st g' \<or> g' \<in> set gs \<Longrightarrow> observed e st' g'"
proof (induction gs arbitrary: st w)
  case Nil
  then show ?case by simp
next
  case (Cons g gs)
  obtain w1 r where s: "check_container v e cfg url g st w = (w1, r)"
    by (cases "check_container v e cfg url g st w")
  show ?case
  proof (cases r)
    case (Inl x)
    with s Cons.prems show ?thesis by simp
  next
    case (Inr st1)
    with s Cons.prems have l: "containers_loop (check_container v e cfg url) gs st1 w1 = (w', Inr st')"
      by simp
    from Cons.prems(2) have "(observed e st g' \<or> g' = g) \<or> g' \<in> set gs" by auto
    then show ?thesis
    proof
      assume "observed e st g' \<or> g' = g"
      with step_observed[OF s[unfolded Inr]] have "observed e st1 g'" by simp
      with Cons.IH[OF l] show ?thesis by simp
    next
      assume "g' \<in> set gs"
      with Cons.IH[OF l] show ?thesis by simp
    qed
  qed
qed

lemma slackOutput_loop_observed:
  "slackOutput_loop (check_container v e cfg) cfg targets st w = (w', Inr st')
   \<Longrightarrow> observed e st g' \<or> g' \<in> set (concat (map target_containers targets))
   \<Longrightarrow> observed e st' g'"
proof (induction targets arbitrary: st w)
  case Nil
  then show ?case by simp
next
  case (Cons s targets)
  from Cons.prems(1) obtain url gs where url: "slackWebhookUrl s = Some url"
    and gs: "gtmContainers s = Some gs"
    by (auto simp: Let_def split: option.splits)
  let ?w1 = "log_msg cfg (''Starting operation for webhook URL '' @ url) w"
  obtain w2 r where c: "containers_loop (check_container v e cfg url) gs st ?w1 = (w2, r)"
    by (cases "containers_loop (check_container v e cfg url) gs st ?w1")
  show ?case
  proof (cases r)
    case (Inl x)
    with url gs c Cons.prems(1) show ?thesis by simp
  next
    case (Inr st1)
    with url gs c Cons.prems(1)
    have l: "slackOutput_loop (check_container v e cfg) cfg targets st1 w2 = (w', Inr st')"
      by simp
    from Cons.prems(2) gs
    have "(observed e st g' \<or> g' \<in> set gs) \<or> g' \<in> set (concat (map target_containers targets))"
      by (auto simp: target_containers_Some)
    then show ?thesis
    proof
      assume "observed e st g' \<or> g' \<in> set gs"
      with containers_loop_observed[OF c[unfolded Inr]] have "observed e st1 g'" by simp
      with Cons.IH[OF l] show ?thesis by simp
    next
      assume "g' \<in> set (concat (map target_containers targets))"
      with Cons.IH[OF l] show ?thesis by simp
    qed
  qed
qed

lemma known_empty: "known Map.empty []"
  by (simp add: known_def stored_record_def)

lemma run_loaded_from_empty:
  assumes "run_loaded (check_container v e cfg) cfg e b f Map.empty w = (w', r)"
  shows "\<exists>es. trace w' = trace w @ GetClient # es \<and> only_repeats [] es
           \<and> (r = Inr () \<longrightarrow> (\<exists>st'. store w' (b, f) = Doc st'
                 \<and> (\<forall>g\<in>set (configured_containers cfg). observed e st' g)
                 \<and> known st' (fetches es)))"
proof (cases "getClient_fails e (tick w)")
  case True
  with assms show ?thesis
    by (intro exI[of _ "[]"]) (auto simp: run_loaded_def only_repeats_quiet)
next
  case nofail: False
  let ?w1 = "remote_call GetClient w"
  show ?thesis
  proof (cases "slackOutput cfg")
    case NoProperty
    with nofail assms show ?thesis
      by (intro exI[of _ "[]"]) (auto simp: run_loaded_def only_repeats_quiet)
  next
    case NullValue
    with nofail assms show ?thesis
      by (intro exI[of _ "[]"]) (auto simp: run_loaded_def only_repeats_quiet)
  next
    case (Present targets)
    obtain w2 r2 where l: "slackOutput_loop (check_container v e cfg) cfg targets Map.empty ?w1
        = (w2, r2)"
      by (cases "slackOutput_loop (check_container v e cfg) cfg targets Map.empty ?w1")
    from slackOutput_loop_repeats[OF known_empty l] obtain es where
      es: "trace w2 = trace ?w1 @ es" "only_repeats [] es"
        "\<forall>st'. r2 = Inr st' \<longrightarrow> known st' ([] @ fetches es)"
      by blast
    show ?thesis
    proof (cases r2)
      case (Inl x)
      with nofail Present l assms have "w' = w2" "r = Inl x" by (simp_all add: run_loaded_def)
      with es show ?thesis by (intro exI[of _ es]) simp
    next
      case (Inr st1)
      let ?tl = "[ConsoleLog ''Writing new state to Cloud Storage.'', Save b f st1]"
      from es(3) Inr have k: "known st1 (fetches es)" by simp
      have o: "\<forall>g\<in>set (configured_containers cfg). observed e st1 g"
        using slackOutput_loop_observed[OF l[unfolded Inr]] Present
        by (simp add: configured_containers_def)
      have "only_repeats ([] @ fetches es) ?tl" by (rule only_repeats_quiet) simp
      with es(2) have rp: "only_repeats [] (es @ ?tl)" by (rule only_repeats_append)
      from nofail Present l Inr assms es(1)
      have t: "trace w' = trace w @ GetClient # (es @ ?tl)"
        and s: "r = Inr () \<longrightarrow> store w' (b, f) = Doc st1"
        by (auto simp: run_loaded_def Let_def split: if_splits)
      from t rp s k o show ?thesis
        by (intro exI[of _ "es @ ?tl"]) auto
    qed
  qed
qed

lemma step_returns:
  assumes "\<forall>t p. live e t p \<noteq> None" and "\<forall>d. prettyMs e (Some d) \<noteq> None"
    and "\<forall>t u. \<not> send_fails e t u" and "checked st"
  shows "\<exists>st'. snd (check_container v e cfg url g st w) = Inr st'"
proof -
  obtain a c where ac: "split_ids g = (a, c)" by (cases "split_ids g")
  from assms(4) have lc: "\<And>m r. st a = Some m \<Longrightarrow> m c = Some r \<Longrightarrow> \<exists>l. lastChecked r = Some l"
    by (auto simp: checked_def stored_record_def split: option.splits)
  show ?thesis
  proof (cases v)
    case Index_js
    with assms(1-3) ac lc show ?thesis
      by (fastforce simp: check_container_index_def sendSlackMessage_index_def
          sendSlackMessage_with_def Let_def simp del: not_None_eq
          split: option.splits prod.splits)
  next
    case Part_000
    with assms(1-3) ac lc show ?thesis
      by (fastforce simp: check_container_part_def checkPublishedVersionIdAgainstState_def
          sendSlackMessage_part_def sendSlackMessage_with_def addContainerToState_def
          read_entry_def assign_entry_def truthy_def Let_def simp del: not_None_eq
          split: option.splits prod.splits sum.splits if_splits)
  qed
qed

lemma step_checked_keeps:
  assumes "check_container v e cfg url g st w = (w', Inr st')" and "checked st"
  shows "checked st'"
proof -
  obtain a c where ac: "split_ids g = (a, c)" by (cases "split_ids g")
  from step_checked[OF assms(1) ac] obtain r' where
    "st' = st(a \<mapsto> (account_of st a)(c \<mapsto> r'))" "lastChecked r' \<noteq> None"
    by auto
  with assms(2) show ?thesis
    by (auto simp: checked_def stored_record_update)
qed

lemma containers_loop_returns:
  assumes "\<forall>t p. live e t p \<noteq> None" and "\<forall>d. prettyMs e (Some d) \<noteq> None"
    and "\<forall>t u. \<not> send_fails e t u"
  shows "checked st \<Longrightarrow> \<exists>w' st'. containers_loop (check_container v e cfg url) gs st w
            = (w', Inr st') \<and> checked st'"
proof (induction gs arbitrary: st w)
  case Nil
  then show ?case by simp
next
  case (Cons g gs)
  obtain w1 r where s: "check_container v e cfg url g st w = (w1, r)"
    by (cases "check_container v e cfg url g st w")
  from step_returns[OF assms Cons.prems, of v cfg url g w] s obtain st1 where r: "r = Inr st1"
    by auto
  from step_checked_keeps[OF s[unfolded r] Cons.prems] have "checked st1" .
  from Cons.IH[OF this, of w1] s r show ?case by simp
qed

lemma slackOutput_loop_returns:
  assumes "\<forall>t p. live e t p \<noteq> None" and "\<forall>d. prettyMs e (Some d) \<noteq> None"
    and "\<forall>t u. \<not> send_fails e t u"
  shows "\<forall>s\<in>set targets. valid_item s \<Longrightarrow> checked st
    \<Longrightarrow> \<exists>w' st'. slackOutput_loop (check_container v e cfg) cfg targets st w = (w', Inr st')
          \<and> checked st'"
proof (induction targets arbitrary: st w)
  case Nil
  then show ?case by simp
next
  case (Cons s targets)
  from Cons.prems(1) obtain url gs where url: "slackWebhookUrl s = Some url"
    and gs: "gtmContainers s = Some gs"
    by (auto simp: valid_item_def truthy_def split: option.splits)
  let ?w1 = "log_msg cfg (''Starting operation for webhook URL '' @ url) w"
  from containers_loop_returns[OF assms Cons.prems(2), of v cfg url gs ?w1]
  obtain w2 st1 where c: "containers_loop (check_container v e cfg url) gs st ?w1 = (w2, Inr st1)"
    and k: "checked st1" by blast
  from Cons.prems(1) have "\<forall>s\<in>set targets. valid_item s" by simp
  from Cons.IH[OF this k, of w2] url gs c show ?case by simp
qed

lemma valid_targets:
  assumes "\<not> error (validateConfig cfg)" and "slackOutput cfg = Present targets"
  shows "\<forall>s\<in>set targets. valid_item s"
proof -
  from assms(1) have "\<not> invalid_items cfg" by (simp add: error_iff_causes)
  with assms(2) show ?thesis
    by (simp add: invalid_items_def valid_item_lacks list_ex_iff)
qed

lemma checked_empty: "checked Map.empty"
  by (simp add: checked_def stored_record_def)

lemma run_loaded_returns:
  assumes "\<forall>t p. live e t p \<noteq> None" and "\<forall>d. prettyMs e (Some d) \<noteq> None"
    and "\<forall>t u. \<not> send_fails e t u"
    and "\<forall>t. \<not> getClient_fails e t" and "\<forall>t. \<not> save_fails e t"
    and "\<not> error (validateConfig cfg)" and "slackOutput cfg \<noteq> NullValue"
    and "checked st"
  shows "snd (run_loaded (check_container v e cfg) cfg e b f st w) = Inr ()"
proof -
  from assms(6,7) obtain targets where t: "slackOutput cfg = Present targets"
    by (cases "slackOutput cfg") (auto simp: error_iff_causes missing_slackOutput_def)
  from valid_targets[OF assms(6) t] have "\<forall>s\<in>set targets. valid_item s" .
  from slackOutput_loop_returns[OF assms(1-3) this assms(8), of v cfg "remote_call GetClient w"]
  obtain w2 st' where "slackOutput_loop (check_container v e cfg) cfg targets st
       (remote_call GetClient w) = (w2, Inr st')" by blast
  with t assms(4,5) show ?thesis
    by (auto simp: run_loaded_def Let_def)
qed




text \<open>
  Claim C7 as stated fails for a container that is listed twice.  The object is absent,
  the configuration lists \<^verbatim>\<open>123_456\<close> twice, and version 6 is published between the
  two fetches.  The second pass finds the record the first pass made and sends a
  notification, in both variants: the container is not treated as a first observation
  the second time.
\<close>

theorem load_failure_can_notify:
  "store (example_world Absent) (''bucket'', ''state.json'') = Absent
   \<and> ConsoleLog ''State file not found, creating a new one.''
       \<in> set (trace (fst (getGtmInfo Index_js changing_env
              (example_config [''123_456'', ''123_456'']) (example_world Absent))))
   \<and> map fst (sends (trace (fst (getGtmInfo Index_js changing_env
              (example_config [''123_456'', ''123_456'']) (example_world Absent)))))
       = [''https://hooks.slack.example/T1'']
   \<and> ConsoleLog ''State file not found, creating a new one.''
       \<in> set (trace (fst (getGtmInfo Part_000 changing_env
              (example_config [''123_456'', ''123_456'']) (example_world Absent))))
   \<and> map fst (sends (trace (fst (getGtmInfo Part_000 changing_env
              (example_config [''123_456'', ''123_456'']) (example_world Absent)))))
       = [''https://hooks.slack.example/T1'']"
  by (simp add: run_defs)

section \<open>The two variants side by side\<close>

lemma twin_log_left: "twin wi wp \<Longrightarrow> twin (log_msg cfg m wi) wp"
  by (simp add: twin_def)

lemma twin_log_right: "twin wi wp \<Longrightarrow> twin wi (log_msg cfg m wp)"
  by (simp add: twin_def)

lemma twin_console: "twin wi wp \<Longrightarrow> twin (console_log m wi) (console_log m wp)"
  by (simp add: twin_def)

lemma twin_call: "twin wi wp \<Longrightarrow> twin (remote_call ev wi) (remote_call (as_part ev) wp)"
  by (cases ev) (simp_all add: twin_def)

lemma send_twin:
  assumes "twin wi wp"
  shows "twin (fst (sendSlackMessage_index e lc data url wi))
              (fst (sendSlackMessage_part e lc data url wp))
         \<and> snd (sendSlackMessage_part e lc data url wp)
             = snd (sendSlackMessage_index e lc data url wi)
         \<and> tick (fst (sendSlackMessage_index e lc data url wi)) \<ge> tick wi"
  using assms
  by (auto simp: sendSlackMessage_index_def sendSlackMessage_part_def sendSlackMessage_with_def
      Let_def twin_def with_full_stop_def split: option.splits)

lemma versioned_update:
  assumes "versioned st" and "truthy (containerVersionId r')"
    and "account = (case st a of None \<Rightarrow> Map.empty | Some m \<Rightarrow> m)"
  shows "versioned (st(a \<mapsto> account(c \<mapsto> r')))"
  using assms by (auto simp: versioned_def split: if_splits option.splits)

lemma twin_fetch:
  "twin wi wp \<Longrightarrow> twin (remote_call (Live p) (log_msg cfg m wi))
                      (remote_call (Live p) (log_msg cfg m wp))"
  using twin_call[of "log_msg cfg m wi" "log_msg cfg m wp" "Live p"]
  by (simp add: twin_log_left twin_log_right)

lemma step_twin:
  assumes tw: "twin wi wp" and ver: "versioned st"
    and ne: "\<forall>t p d. live e t p = Some d \<longrightarrow> data_containerVersionId d \<noteq> []"
  shows "twin (fst (check_container_index e cfg url g st wi))
              (fst (check_container_part e cfg url g st wp))
         \<and> snd (check_container_part e cfg url g st wp)
             = snd (check_container_index e cfg url g st wi)
         \<and> (\<forall>st'. snd (check_container_index e cfg url g st wi) = Inr st' \<longrightarrow> versioned st')"
proof -
  obtain a c where ac: "split_ids g = (a, c)" by (cases "split_ids g")
  let ?m = "tag a c @ '': Checking version state.''"
  let ?p = "parent_path a c"
  let ?wi2 = "remote_call (Live ?p) (log_msg cfg ?m wi)"
  let ?wp2 = "remote_call (Live ?p) (log_msg cfg ?m wp)"
  from tw have t2: "twin ?wi2 ?wp2" by (rule twin_fetch)
  from tw have tk: "tick wp = tick wi" by (simp add: twin_def)
  show ?thesis
  proof (cases "live e (tick wi) ?p")
    case None
    with ac tk t2 show ?thesis
      by (simp add: check_container_index_def check_container_part_def
          checkPublishedVersionIdAgainstState_def Let_def)
  next
    case (Some data)
    with ne have vne: "data_containerVersionId data \<noteq> []" by blast
    let ?v = "data_containerVersionId data"
    let ?account = "case st a of None \<Rightarrow> Map.empty | Some m \<Rightarrow> m"
    show ?thesis
    proof (cases "?account c")
      case None
      let ?new = "\<lparr>containerVersionId = Some ?v, lastChecked = Some (clock e (Suc (tick wi)))\<rparr>"
      have v': "versioned (st(a \<mapsto> ?account(c \<mapsto> ?new)))"
        by (rule versioned_update[OF ver]) (simp_all add: truthy_def vne)
      have ti: "twin (log_msg cfg (tag a c @ '': Published version same as previous entry, or new entry altogether.'')
                    (log_msg cfg (tag a c @ '': Previous entry missing, setting the current version as the new entry.'') ?wi2))
                  (log_msg cfg (tag a c @ '': Previous entry missing, setting the current version as the new entry.'') ?wp2)"
        by (intro twin_log_left twin_log_right t2)
      from None ac tk Some ti v' show ?thesis
        by (auto simp: check_container_index_def check_container_part_def
            checkPublishedVersionIdAgainstState_def addContainerToState_def read_entry_def
            assign_entry_def truthy_def Let_def split: option.splits)
    next
      case (Some r)
      with ver have tr: "truthy (containerVersionId r)"
        by (auto simp: versioned_def split: option.splits)
      then obtain old where old: "containerVersionId r = Some old" "old \<noteq> []"
        by (auto simp: truthy_def split: option.splits)
      from Some have sta: "st a = Some ?account" by (auto split: option.splits)
      show ?thesis
      proof (cases "old = ?v")
        case True
        let ?new = "r\<lparr>lastChecked := Some (clock e (Suc (tick wi)))\<rparr>"
        have v': "versioned (st(a \<mapsto> ?account(c \<mapsto> ?new)))"
          by (rule versioned_update[OF ver]) (simp_all add: tr)
        have ti: "twin (log_msg cfg (tag a c @ '': Published version same as previous entry, or new entry altogether.'') ?wi2)
                  (log_msg cfg (tag a c @ '': Published version same as previous entry, or new entry altogether.'') ?wp2)"
          by (intro twin_log_left twin_log_right t2)
        from True old have same: "r\<lparr>containerVersionId := Some ?v\<rparr> = r" by (cases r) simp
        from True old Some sta ac tk \<open>live e (tick wi) ?p = Some data\<close> ti v' tr show ?thesis
          by (auto simp: same check_container_index_def check_container_part_def
              checkPublishedVersionIdAgainstState_def addContainerToState_def read_entry_def
              assign_entry_def Let_def split: option.splits)
      next
        case False
        let ?n = "tag a c @ '': New version published since previous entry, notifying Slack.''"
        let ?wi3 = "log_msg cfg ?n ?wi2"
        let ?wp3 = "log_msg cfg ?n ?wp2"
        have t3: "twin ?wi3 ?wp3" by (intro twin_log_left twin_log_right t2)
        obtain wi4 ri where si: "sendSlackMessage_index e (lastChecked r) data url ?wi3 = (wi4, ri)"
          by (cases "sendSlackMessage_index e (lastChecked r) data url ?wi3")
        obtain wp4 rp where sp: "sendSlackMessage_part e (lastChecked r) data url ?wp3 = (wp4, rp)"
          by (cases "sendSlackMessage_part e (lastChecked r) data url ?wp3")
        from send_twin[OF t3, of e "lastChecked r" data url] si sp
        have t4: "twin wi4 wp4" and rr: "rp = ri" by simp_all
        from t4 have tk4: "tick wp4 = tick wi4" by (simp add: twin_def)
        let ?new = "r\<lparr>containerVersionId := Some ?v, lastChecked := Some (clock e (tick wi4))\<rparr>"
        have v': "versioned (st(a \<mapsto> ?account(c \<mapsto> ?new)))"
          by (rule versioned_update[OF ver]) (simp_all add: truthy_def vne)
        from False old Some sta ac tk \<open>live e (tick wi) ?p = Some data\<close> si sp t4 rr tk4 v' tr
        show ?thesis
          by (cases ri)
             (auto simp: check_container_index_def check_container_part_def
              checkPublishedVersionIdAgainstState_def addContainerToState_def read_entry_def
              assign_entry_def Let_def split: option.splits)
      qed
    qed
  qed
qed

lemma containers_loop_twin:
  assumes ne: "\<forall>t p d. live e t p = Some d \<longrightarrow> data_containerVersionId d \<noteq> []"
  shows "twin wi wp \<Longrightarrow> versioned st \<Longrightarrow>
         twin (fst (containers_loop (check_container_index e cfg url) gs st wi))
              (fst (containers_loop (check_container_part e cfg url) gs st wp))
         \<and> snd (containers_loop (check_container_part e cfg url) gs st wp)
             = snd (containers_loop (check_container_index e cfg url) gs st wi)
         \<and> (\<forall>st'. snd (containers_loop (check_container_index e cfg url) gs st wi) = Inr st'
               \<longrightarrow> versioned st')"
proof (induction gs arbitrary: st wi wp)
  case Nil
  then show ?case by simp
next
  case (Cons g gs)
  obtain wi1 ri where si: "check_container_index e cfg url g st wi = (wi1, ri)"
    by (cases "check_container_index e cfg url g st wi")
  obtain wp1 rp where sp: "check_container_part e cfg url g st wp = (wp1, rp)"
    by (cases "check_container_part e cfg url g st wp")
  from step_twin[OF Cons.prems ne, of cfg url g] si sp
  have t1: "twin wi1 wp1" and rr: "rp = ri" and v1: "\<forall>st'. ri = Inr st' \<longrightarrow> versioned st'"
    by simp_all
  show ?case
  proof (cases ri)
    case (Inl x)
    with si sp t1 rr show ?thesis by simp
  next
    case (Inr st1)
    with v1 have "versioned st1" by simp
    from Cons.IH[OF t1 this] si sp rr Inr show ?thesis by simp
  qed
qed

lemma slackOutput_loop_twin:
  assumes ne: "\<forall>t p d. live e t p = Some d \<longrightarrow> data_containerVersionId d \<noteq> []"
  shows "twin wi wp \<Longrightarrow> versioned st \<Longrightarrow>
         twin (fst (slackOutput_loop (check_container_index e cfg) cfg targets st wi))
              (fst (slackOutput_loop (check_container_part e cfg) cfg targets st wp))
         \<and> snd (slackOutput_loop (check_container_part e cfg) cfg targets st wp)
             = snd (slackOutput_loop (check_container_index e cfg) cfg targets st wi)
         \<and> (\<forall>st'. snd (slackOutput_loop (check_container_index e cfg) cfg targets st wi) = Inr st'
               \<longrightarrow> versioned st')"
proof (induction targets arbitrary: st wi wp)
  case Nil
  then show ?case by simp
next
  case (Cons s targets)
  show ?case
  proof (cases "slackWebhookUrl s")
    case None
    with Cons.prems show ?thesis by (simp add: twin_log_left twin_log_right)
  next
    case url: (Some url)
    let ?m = "''Starting operation for webhook URL '' @ url"
    from Cons.prems(1) have t0: "twin (log_msg cfg ?m wi) (log_msg cfg ?m wp)"
      by (intro twin_log_left twin_log_right)
    show ?thesis
    proof (cases "gtmContainers s")
      case None
      with url t0 show ?thesis by simp
    next
      case (Some gs)
      obtain wi2 ri where ci:
        "containers_loop (check_container_index e cfg url) gs st (log_msg cfg ?m wi) = (wi2, ri)"
        by (cases "containers_loop (check_container_index e cfg url) gs st (log_msg cfg ?m wi)")
      obtain wp2 rp where cp:
        "containers_loop (check_container_part e cfg url) gs st (log_msg cfg ?m wp) = (wp2, rp)"
        by (cases "containers_loop (check_container_part e cfg url) gs st (log_msg cfg ?m wp)")
      from containers_loop_twin[OF ne t0 Cons.prems(2), of cfg url gs] ci cp
      have t2: "twin wi2 wp2" and rr: "rp = ri" and v2: "\<forall>st'. ri = Inr st' \<longrightarrow> versioned st'"
        by simp_all
      show ?thesis
      proof (cases ri)
        case (Inl x)
        with url Some ci cp t2 rr show ?thesis by simp
      next
        case (Inr st1)
        with v2 have "versioned st1" by simp
        from Cons.IH[OF t2 this] url Some ci cp rr Inr show ?thesis by simp
      qed
    qed
  qed
qed

lemma twin_store:
  "twin wi wp \<Longrightarrow> twin (wi\<lparr>store := s\<rparr>) (wp\<lparr>store := s\<rparr>)"
  by (simp add: twin_def)

lemma run_loaded_twin:
  assumes ne: "\<forall>t p d. live e t p = Some d \<longrightarrow> data_containerVersionId d \<noteq> []"
    and tw: "twin wi wp" and ver: "versioned st"
  shows "twin (fst (run_loaded (check_container_index e cfg) cfg e b f st wi))
              (fst (run_loaded (check_container_part e cfg) cfg e b f st wp))
         \<and> snd (run_loaded (check_container_part e cfg) cfg e b f st wp)
             = snd (run_loaded (check_container_index e cfg) cfg e b f st wi)"
proof -
  from tw have tk: "tick wp = tick wi" by (simp add: twin_def)
  from twin_call[OF tw, of GetClient]
  have t1: "twin (remote_call GetClient wi) (remote_call GetClient wp)" by simp
  show ?thesis
  proof (cases "getClient_fails e (tick wi)")
    case True
    with tk t1 show ?thesis by (simp add: run_loaded_def)
  next
    case nofail: False
    show ?thesis
    proof (cases "slackOutput cfg")
      case NoProperty
      with nofail tk t1 show ?thesis by (simp add: run_loaded_def)
    next
      case NullValue
      with nofail tk t1 show ?thesis by (simp add: run_loaded_def)
    next
      case (Present targets)
      note Some = Present
      obtain wi2 ri where li:
        "slackOutput_loop (check_container_index e cfg) cfg targets st (remote_call GetClient wi)
           = (wi2, ri)"
        by (cases "slackOutput_loop (check_container_index e cfg) cfg targets st (remote_call GetClient wi)")
      obtain wp2 rp where lp:
        "slackOutput_loop (check_container_part e cfg) cfg targets st (remote_call GetClient wp)
           = (wp2, rp)"
        by (cases "slackOutput_loop (check_container_part e cfg) cfg targets st (remote_call GetClient wp)")
      from slackOutput_loop_twin[OF ne t1 ver, of cfg targets] li lp
      have t2: "twin wi2 wp2" and rr: "rp = ri" by simp_all
      show ?thesis
      proof (cases ri)
        case (Inl x)
        with nofail Some tk li lp t2 rr show ?thesis by (simp add: run_loaded_def)
      next
        case (Inr st1)
        let ?m = "''Writing new state to Cloud Storage.''"
        from t2 have t3: "twin (console_log ?m wi2) (console_log ?m wp2)" by (rule twin_console)
        from twin_call[OF t3, of "Save b f st1"]
        have t4: "twin (remote_call (Save b f st1) (console_log ?m wi2))
                       (remote_call (Save b f st1) (console_log ?m wp2))" by simp
        from t2 have tk2: "tick wp2 = tick wi2" and s2: "store wp2 = store wi2"
          by (simp_all add: twin_def)
        from nofail Some tk li lp rr Inr t4 tk2 s2 show ?thesis
          by (simp add: run_loaded_def Let_def twin_store)
      qed
    qed
  qed
qed

lemma load_state_versioned:
  assumes "\<forall>st. store w (b, f) = Doc st \<longrightarrow> versioned st"
  shows "versioned (snd (load_state e b f w))"
  using assms by (auto simp: load_state_def Let_def versioned_def split: blob.splits)

lemma twin_refl: "sends (trace w) = [] \<Longrightarrow> twin w w"
proof -
  have "sends es = [] \<Longrightarrow> map as_part (filter is_remote es) = filter is_remote es" for es
    by (induction es rule: sends.induct) simp_all
  then show "sends (trace w) = [] \<Longrightarrow> twin w w" by (simp add: twin_def)
qed

lemma load_state_sends: "sends (trace (fst (load_state e b f w))) = sends (trace w)"
  by (simp add: load_state_def Let_def split: blob.splits)

lemma sends_remote: "sends (filter is_remote es) = sends es"
  by (induction es rule: sends.induct) simp_all

lemma sends_as_part:
  "sends (map as_part es) = map (\<lambda>(url, payload). (url, map with_full_stop payload)) (sends es)"
  by (induction es rule: sends.induct) simp_all

lemma versioned_example: "versioned (example_state (Some ''5''))"
  by (auto simp: versioned_def example_state_def truthy_def split: if_splits)

text \<open>
  Claim C10, as amended.  Take a run that starts with an empty trace, a bucket whose
  state documents hold a non-empty \<^verbatim>\<open>containerVersionId\<close> in every record, and a remote
  side that returns non-empty version ids.  Then both variants end alike (normally or
  with the same error), leave the same bucket, and make the same remote calls in the
  same order; the notifications go to the same destinations, and each one of
  \<^verbatim>\<open>src/unnamed/part_000\<close> is the one of \<^verbatim>\<open>src/index.js\<close> with a full stop added to its
  text.
\<close>

theorem variants_agree_up_to_full_stop:
  assumes "trace w = []"
    and "\<forall>b f st. store w (b, f) = Doc st \<longrightarrow> versioned st"
    and "\<forall>t p d. live e t p = Some d \<longrightarrow> data_containerVersionId d \<noteq> []"
  shows "snd (getGtmInfo Part_000 e cfg w) = snd (getGtmInfo Index_js e cfg w)
         \<and> store (fst (getGtmInfo Part_000 e cfg w)) = store (fst (getGtmInfo Index_js e cfg w))
         \<and> filter is_remote (trace (fst (getGtmInfo Part_000 e cfg w)))
             = map as_part (filter is_remote (trace (fst (getGtmInfo Index_js e cfg w))))
         \<and> sends (trace (fst (getGtmInfo Part_000 e cfg w)))
             = map (\<lambda>(url, payload). (url, map with_full_stop payload))
                 (sends (trace (fst (getGtmInfo Index_js e cfg w))))"
proof -
  have "twin (fst (getGtmInfo Index_js e cfg w)) (fst (getGtmInfo Part_000 e cfg w))
        \<and> snd (getGtmInfo Part_000 e cfg w) = snd (getGtmInfo Index_js e cfg w)"
  proof (cases "error (validateConfig cfg)")
    case True
    with assms(1) show ?thesis
      by (simp add: getGtmInfo_def getGtmInfo_with_def Let_def twin_def)
  next
    case valid: False
    show ?thesis
    proof (cases "gcs cfg")
      case NoProperty
      with valid assms(1) show ?thesis
        by (simp add: getGtmInfo_def getGtmInfo_with_def Let_def twin_def)
    next
      case NullValue
      with valid assms(1) show ?thesis
        by (simp add: getGtmInfo_def getGtmInfo_with_def Let_def twin_def)
    next
      case (Present g)
      note Some = Present
      show ?thesis
      proof (cases "\<exists>b f. bucketName g = Some b \<and> fileName g = Some f")
        case False
        with valid Some assms(1) show ?thesis
          by (auto simp: getGtmInfo_def getGtmInfo_with_def Let_def twin_def split: option.splits property.splits)
      next
        case True
        then obtain b f where bf: "bucketName g = Some b" "fileName g = Some f" by blast
        let ?w2 = "console_log ''Validation successful.'' (console_log ''Validating config.json'' w)"
        obtain w3 st where ld: "load_state e b f ?w2 = (w3, st)"
          by (cases "load_state e b f ?w2")
        from load_state_sends[of e b f ?w2] ld assms(1) have "sends (trace w3) = []" by simp
        then have t3: "twin w3 w3" by (rule twin_refl)
        from load_state_versioned[of ?w2 b f e] assms(2) ld have ver: "versioned st" by simp
        from run_loaded_twin[OF assms(3) t3 ver, of cfg b f] valid Some bf ld show ?thesis
          by (simp add: getGtmInfo_def getGtmInfo_with_def Let_def)
      qed
    qed
  qed
  then have tw: "twin (fst (getGtmInfo Index_js e cfg w)) (fst (getGtmInfo Part_000 e cfg w))"
    and rr: "snd (getGtmInfo Part_000 e cfg w) = snd (getGtmInfo Index_js e cfg w)"
    by simp_all
  from tw have rem: "filter is_remote (trace (fst (getGtmInfo Part_000 e cfg w)))
             = map as_part (filter is_remote (trace (fst (getGtmInfo Index_js e cfg w))))"
    and st: "store (fst (getGtmInfo Part_000 e cfg w)) = store (fst (getGtmInfo Index_js e cfg w))"
    by (simp_all add: twin_def)
  from rem have "sends (filter is_remote (trace (fst (getGtmInfo Part_000 e cfg w))))
             = sends (map as_part (filter is_remote (trace (fst (getGtmInfo Index_js e cfg w)))))"
    by simp
  then have "sends (trace (fst (getGtmInfo Part_000 e cfg w)))
             = map (\<lambda>(url, payload). (url, map with_full_stop payload))
                 (sends (trace (fst (getGtmInfo Index_js e cfg w))))"
    by (simp only: sends_remote sends_as_part)
  with rr st rem show ?thesis by simp
qed

theorem variants_agree_up_to_full_stop_witness:
  "snd (getGtmInfo Part_000 (example_env ''6'') (example_config [''123_456''])
          (example_world (Doc (example_state (Some ''5'')))))
     = snd (getGtmInfo Index_js (example_env ''6'') (example_config [''123_456''])
          (example_world (Doc (example_state (Some ''5'')))))
   \<and> store (fst (getGtmInfo Part_000 (example_env ''6'') (example_config [''123_456''])
          (example_world (Doc (example_state (Some ''5''))))))
     = store (fst (getGtmInfo Index_js (example_env ''6'') (example_config [''123_456''])
          (example_world (Doc (example_state (Some ''5''))))))
   \<and> filter is_remote (trace (fst (getGtmInfo Part_000 (example_env ''6'')
          (example_config [''123_456'']) (example_world (Doc (example_state (Some ''5'')))))))
     = map as_part (filter is_remote (trace (fst (getGtmInfo Index_js (example_env ''6'')
          (example_config [''123_456'']) (example_world (Doc (example_state (Some ''5''))))))))
   \<and> sends (trace (fst (getGtmInfo Part_000 (example_env ''6'') (example_config [''123_456''])
          (example_world (Doc (example_state (Some ''5'')))))))
     = map (\<lambda>(url, payload). (url, map with_full_stop payload))
         (sends (trace (fst (getGtmInfo Index_js (example_env ''6'') (example_config [''123_456''])
          (example_world (Doc (example_state (Some ''5''))))))))"
  by (rule variants_agree_up_to_full_stop)
     (simp_all add: example_world_def example_env_def example_data_def versioned_example)

text \<open>
  Claim C10 as stated fails: with version 5 on record and version 6 live, both variants
  send one notification, and the two messages differ in their text.
\<close>

theorem variants_differ_in_text:
  "sends (trace (fst (getGtmInfo Index_js (example_env ''6'')
      (example_config [''123_456'']) (example_world (Doc (example_state (Some ''5'')))))))
     \<noteq> sends (trace (fst (getGtmInfo Part_000 (example_env ''6'')
      (example_config [''123_456'']) (example_world (Doc (example_state (Some ''5'')))))))
   \<and> map (map text_field \<circ> snd) (sends (trace (fst (getGtmInfo Index_js (example_env ''6'')
      (example_config [''123_456'']) (example_world (Doc (example_state (Some ''5''))))))))
     = [[''New published version found since last check (1s ago)'']]
   \<and> map (map text_field \<circ> snd) (sends (trace (fst (getGtmInfo Part_000 (example_env ''6'')
      (example_config [''123_456'']) (example_world (Doc (example_state (Some ''5''))))))))
     = [[''New published version found since last check (1s ago).'']]"
  by (simp add: run_defs)

end
